theory Spec2Isabelle
  imports Complex_Main "HOL-Library.Multiset"
begin

section \<open>Numbers\<close>

text \<open>
  The tracker lives in \<^verbatim>\<open>src/src/lib/supabase.ts\<close> (lines 178--604). Its numbers are
  JavaScript numbers. Finite values are modelled as reals, so rounding and signed zeros are
  abstracted away; the one operation of the tracker that can leave the finite numbers on
  finite operands is division, whose result is therefore a \<open>jsnum\<close>: a finite value, an
  infinity or \<open>NaN\<close>.
\<close>

datatype jsnum = Fin real | PosInf | NegInf | NaN

text \<open>\<^verbatim>\<open>a / b\<close> on finite operands: \<^verbatim>\<open>0/0\<close> is \<open>NaN\<close>, \<^verbatim>\<open>a/0\<close> an infinity.\<close>

definition js_div :: "real \<Rightarrow> real \<Rightarrow> jsnum" where
  "js_div a b =
     (if b = 0 then (if a = 0 then NaN else if 0 < a then PosInf else NegInf)
      else Fin (a / b))"

fun js_mul :: "jsnum \<Rightarrow> jsnum \<Rightarrow> jsnum" where
  "js_mul NaN _ = NaN"
| "js_mul _ NaN = NaN"
| "js_mul (Fin a) (Fin b) = Fin (a * b)"
| "js_mul (Fin a) PosInf = (if a = 0 then NaN else if 0 < a then PosInf else NegInf)"
| "js_mul (Fin a) NegInf = (if a = 0 then NaN else if 0 < a then NegInf else PosInf)"
| "js_mul PosInf (Fin b) = (if b = 0 then NaN else if 0 < b then PosInf else NegInf)"
| "js_mul NegInf (Fin b) = (if b = 0 then NaN else if 0 < b then NegInf else PosInf)"
| "js_mul PosInf PosInf = PosInf"
| "js_mul PosInf NegInf = NegInf"
| "js_mul NegInf PosInf = NegInf"
| "js_mul NegInf NegInf = PosInf"

fun js_add :: "jsnum \<Rightarrow> jsnum \<Rightarrow> jsnum" where
  "js_add NaN _ = NaN"
| "js_add _ NaN = NaN"
| "js_add (Fin a) (Fin b) = Fin (a + b)"
| "js_add (Fin a) PosInf = PosInf"
| "js_add (Fin a) NegInf = NegInf"
| "js_add PosInf (Fin b) = PosInf"
| "js_add NegInf (Fin b) = NegInf"
| "js_add PosInf PosInf = PosInf"
| "js_add NegInf NegInf = NegInf"
| "js_add PosInf NegInf = NaN"
| "js_add NegInf PosInf = NaN"

text \<open>\<^verbatim>\<open>a > b\<close>: false as soon as one side is \<open>NaN\<close>.\<close>

fun js_gt :: "jsnum \<Rightarrow> jsnum \<Rightarrow> bool" where
  "js_gt NaN _ = False"
| "js_gt _ NaN = False"
| "js_gt (Fin a) (Fin b) = (b < a)"
| "js_gt (Fin a) PosInf = False"
| "js_gt (Fin a) NegInf = True"
| "js_gt PosInf (Fin b) = True"
| "js_gt PosInf PosInf = False"
| "js_gt PosInf NegInf = True"
| "js_gt NegInf _ = False"

section \<open>Data model\<close>

text \<open>A box is \<^verbatim>\<open>[x, y, width, height]\<close>.\<close>

type_synonym bbox = "real \<times> real \<times> real \<times> real"

text \<open>What the detection model returns, and \<^verbatim>\<open>interface Detection\<close> (lines 179--183).\<close>

record Detection =
  d_bbox :: bbox
  d_class :: string
  d_score :: real

datatype direction = In | Out

text \<open>
  \<^verbatim>\<open>interface TrackedPerson\<close> (lines 194--204). The field \<^verbatim>\<open>id\<close> is \<open>pid\<close> here;
  \<^verbatim>\<open>direction: 'in' | 'out' | null\<close> is a \<open>direction option\<close>; \<^verbatim>\<open>lastSeen\<close> holds
  a value of \<^verbatim>\<open>Date.now()\<close>, an integer number of milliseconds.
\<close>

record TrackedPerson =
  pid :: string
  bbox :: bbox
  centerX :: real
  centerY :: real
  previousY :: real
  lastSeen :: int
  crossed :: bool
  direction :: "direction option"
  framesSinceCrossing :: nat

text \<open>The constants of lines 207--213.\<close>

definition CROSSING_LINE_POSITION :: real where "CROSSING_LINE_POSITION = 0.5"
definition TRACKING_THRESHOLD :: real where "TRACKING_THRESHOLD = 400"
definition TRACKING_TIMEOUT :: int where "TRACKING_TIMEOUT = 3000"
definition MIN_CONFIDENCE :: real where "MIN_CONFIDENCE = 0.2"
definition CROSSING_COOLDOWN :: nat where "CROSSING_COOLDOWN = 15"
definition MIN_DISTANCE_FOR_CROSSING :: real where "MIN_DISTANCE_FOR_CROSSING = 5"

section \<open>Geometry utilities\<close>

text \<open>\<^verbatim>\<open>calculateDistance\<close> (lines 258--260).\<close>

definition calculateDistance :: "real \<Rightarrow> real \<Rightarrow> real \<Rightarrow> real \<Rightarrow> real" where
  "calculateDistance x1 y1 x2 y2 = sqrt ((x2 - x1)\<^sup>2 + (y2 - y1)\<^sup>2)"

text \<open>\<^verbatim>\<open>calculateIoU\<close> (lines 265--287): the early return, then one unguarded division.\<close>

definition calculateIoU :: "bbox \<Rightarrow> bbox \<Rightarrow> jsnum" where
  "calculateIoU bbox1 bbox2 =
     (case bbox1 of (x1, y1, w1, h1) \<Rightarrow>
      case bbox2 of (x2, y2, w2, h2) \<Rightarrow>
        let xLeft = max x1 x2;
            yTop = max y1 y2;
            xRight = min (x1 + w1) (x2 + w2);
            yBottom = min (y1 + h1) (y2 + h2)
        in if xRight < xLeft \<or> yBottom < yTop then Fin 0
           else
             let intersectionArea = (xRight - xLeft) * (yBottom - yTop);
                 bbox1Area = w1 * h1;
                 bbox2Area = w2 * h2;
                 unionArea = bbox1Area + bbox2Area - intersectionArea
             in js_div intersectionArea unionArea)"

section \<open>The environment\<close>

text \<open>
  The tracker reads the wall clock (\<^verbatim>\<open>Date.now()\<close>) several times per frame and draws a
  random suffix for every new identifier. Both are inputs: \<open>dateNow w k\<close> is the value of
  the \<open>k\<close>-th clock reading since the module was loaded, \<open>randomSuffix w k\<close> the string
  \<^verbatim>\<open>Math.random().toString(36).substr(2, 9)\<close> drawn right after that reading. The state
  counts the readings taken so far.
\<close>

record World =
  dateNow :: "nat \<Rightarrow> int"
  randomSuffix :: "nat \<Rightarrow> string"

text \<open>
  The module state: the \<^verbatim>\<open>Map\<close> \<^verbatim>\<open>trackedPeople\<close> (line 206) in insertion order, which
  is the order \<^verbatim>\<open>forEach\<close> visits it in. Every entry is stored under the \<^verbatim>\<open>id\<close> of its
  value (line 472 is the only \<^verbatim>\<open>set\<close>), so the key of an entry is its \<open>pid\<close>.
\<close>

record Tracker =
  trackedPeople :: "TrackedPerson list"
  clockReads :: nat

text \<open>The locals of one call of \<^verbatim>\<open>detectPeopleWithCrossing\<close> (lines 355, 356, 377).\<close>

record FrameState = Tracker +
  matchedPeople :: "string set"
  countIn :: nat
  countOut :: nat

record CrossingResult =
  r_detections :: "Detection list"
  r_peopleCount :: nat
  r_countIn :: nat
  r_countOut :: nat

text \<open>\<^verbatim>\<open>Map.prototype.set\<close> and \<^verbatim>\<open>delete\<close>: a present key keeps its place.\<close>

definition mapSet :: "string \<Rightarrow> TrackedPerson \<Rightarrow> TrackedPerson list \<Rightarrow> TrackedPerson list" where
  "mapSet k v ps =
     (if k \<in> pid ` set ps then map (\<lambda>q. if pid q = k then v else q) ps else ps @ [v])"

definition mapDelete :: "string \<Rightarrow> TrackedPerson list \<Rightarrow> TrackedPerson list" where
  "mapDelete k ps = filter (\<lambda>q. pid q \<noteq> k) ps"

text \<open>Decimal digits of a clock value, for the identifier of line 460.\<close>

fun showNat :: "nat \<Rightarrow> string" where
  "showNat n =
     (if n < 10 then [''0123456789'' ! n]
      else showNat (n div 10) @ [''0123456789'' ! (n mod 10)])"

definition showInt :: "int \<Rightarrow> string" where
  "showInt i = (if i < 0 then CHR ''-'' # showNat (nat (- i)) else showNat (nat i))"

definition newId :: "int \<Rightarrow> string \<Rightarrow> string" where
  "newId t r = ''person_'' @ showInt t @ ''_'' @ r"

section \<open>Detection filter\<close>

text \<open>
  \<^verbatim>\<open>detectPeople\<close> (lines 230--253): the predictions of the model are its input here; the
  result keeps the people with at least the minimum confidence. Its timestamp is one clock
  reading, which nothing uses.
\<close>

definition detectPeople :: "Detection list \<Rightarrow> Detection list" where
  "detectPeople predictions =
     filter (\<lambda>prediction. d_class prediction = ''person'' \<and> MIN_CONFIDENCE \<le> d_score prediction)
       predictions"

section \<open>Association\<close>

text \<open>The score of lines 301--318 for one tracked person that passed the distance gate.\<close>

definition candidateScore :: "bbox \<Rightarrow> real \<Rightarrow> real \<Rightarrow> TrackedPerson \<Rightarrow> jsnum" where
  "candidateScore box cX cY person =
     (let distance = calculateDistance cX cY (centerX person) (centerY person);
          iou = calculateIoU box (bbox person);
          sizeRatio =
            (case box of (_, _, w1, h1) \<Rightarrow>
             case bbox person of (_, _, w2, h2) \<Rightarrow>
               js_div (min (w1 * h1) (w2 * h2)) (max (w1 * h1) (w2 * h2)));
          distanceScore = max 0 (1 - distance / TRACKING_THRESHOLD)
      in js_add (js_add (js_mul iou (Fin 0.5)) (js_mul (Fin distanceScore) (Fin 0.3)))
           (js_mul sizeRatio (Fin 0.2)))"

text \<open>One round of the \<^verbatim>\<open>forEach\<close> of lines 300--324 on the pair (closest, maxScore).\<close>

definition closestStep ::
  "bbox \<Rightarrow> real \<Rightarrow> real \<Rightarrow> TrackedPerson option \<times> jsnum \<Rightarrow> TrackedPerson
     \<Rightarrow> TrackedPerson option \<times> jsnum" where
  "closestStep box cX cY acc person =
     (if TRACKING_THRESHOLD < calculateDistance cX cY (centerX person) (centerY person) then acc
      else if js_gt (candidateScore box cX cY person) (snd acc)
           then (Some person, candidateScore box cX cY person)
           else acc)"

text \<open>\<^verbatim>\<open>findClosestPerson\<close> (lines 292--327), over the whole registry.\<close>

definition findClosestPerson ::
  "TrackedPerson list \<Rightarrow> bbox \<Rightarrow> real \<Rightarrow> real \<Rightarrow> TrackedPerson option" where
  "findClosestPerson people box cX cY = fst (foldl (closestStep box cX cY) (None, Fin 0.3) people)"

section \<open>Lifecycle\<close>

text \<open>\<^verbatim>\<open>cleanupTrackedPeople\<close> (lines 332--339), given its one clock reading.\<close>

definition cleanupTrackedPeople :: "int \<Rightarrow> TrackedPerson list \<Rightarrow> TrackedPerson list" where
  "cleanupTrackedPeople now people =
     filter (\<lambda>person. \<not> (TRACKING_TIMEOUT < now - lastSeen person)) people"

text \<open>The cooldown pass of lines 364--374 on one person, and on the registry.\<close>

definition cooldownStep :: "TrackedPerson \<Rightarrow> TrackedPerson" where
  "cooldownStep person =
     (if crossed person then
        (if CROSSING_COOLDOWN \<le> framesSinceCrossing person + 1
         then person\<lparr>crossed := False, framesSinceCrossing := 0, direction := None\<rparr>
         else person\<lparr>framesSinceCrossing := framesSinceCrossing person + 1\<rparr>)
      else person)"

definition cooldownPass :: "TrackedPerson list \<Rightarrow> TrackedPerson list" where
  "cooldownPass people = map cooldownStep people"

section \<open>Crossing detection\<close>

text \<open>
  The branch of lines 392--457 on the matched person: the position update, then the
  crossing test when the person is not in cooldown. The result is the updated person and
  the increments of \<^verbatim>\<open>countIn\<close> and \<^verbatim>\<open>countOut\<close>.
\<close>

definition updateExistingPerson ::
  "real \<Rightarrow> bbox \<Rightarrow> real \<Rightarrow> real \<Rightarrow> int \<Rightarrow> TrackedPerson \<Rightarrow> TrackedPerson \<times> nat \<times> nat" where
  "updateExistingPerson crossingLineY box cX cY now existingPerson =
     (let prevY = centerY existingPerson;
          previousCenterX = centerX existingPerson;
          moved = existingPerson\<lparr>bbox := box, centerX := cX, previousY := prevY,
                    centerY := cY, lastSeen := now\<rparr>
      in if \<not> crossed moved then
           (let crossedDown = (prevY < crossingLineY \<and> crossingLineY < cY);
                crossedUp = (crossingLineY < prevY \<and> cY < crossingLineY);
                verticalMovement = \<bar>cY - prevY\<bar>;
                horizontalMovement = \<bar>cX - previousCenterX\<bar>;
                isVerticalMovement = (horizontalMovement * 0.1 < verticalMovement)
            in if MIN_DISTANCE_FOR_CROSSING < verticalMovement \<and> isVerticalMovement then
                 (if crossedDown then
                    (moved\<lparr>direction := Some In, crossed := True, framesSinceCrossing := 0\<rparr>, 1, 0)
                  else if crossedUp then
                    (moved\<lparr>direction := Some Out, crossed := True, framesSinceCrossing := 0\<rparr>, 0, 1)
                  else (moved, 0, 0))
               else (moved, 0, 0))
         else (moved, 0, 0))"

text \<open>
  The body of the loop over the sorted detections (lines 383--477). A matched person is
  mutated in place, which is the replacement of the entry with its identifier. A
  detection whose closest person is already claimed falls through both branches.
\<close>

definition processDetection :: "World \<Rightarrow> real \<Rightarrow> FrameState \<Rightarrow> Detection \<Rightarrow> FrameState" where
  "processDetection w crossingLineY st detection =
     (case d_bbox detection of (x, y, width, height) \<Rightarrow>
        let cX = x + width / 2;
            cY = y + height / 2
        in case findClosestPerson (trackedPeople st) (d_bbox detection) cX cY of
             Some existingPerson \<Rightarrow>
               if pid existingPerson \<notin> matchedPeople st then
                 (case updateExistingPerson crossingLineY (d_bbox detection) cX cY
                         (dateNow w (clockReads st)) existingPerson of
                    (person', dIn, dOut) \<Rightarrow>
                      st\<lparr>trackedPeople :=
                            map (\<lambda>q. if pid q = pid existingPerson then person' else q)
                              (trackedPeople st),
                          clockReads := clockReads st + 1,
                          matchedPeople := insert (pid existingPerson) (matchedPeople st),
                          countIn := countIn st + dIn,
                          countOut := countOut st + dOut\<rparr>)
               else st
           | None \<Rightarrow>
               let ident = newId (dateNow w (clockReads st)) (randomSuffix w (clockReads st));
                   newPerson = \<lparr>pid = ident, bbox = d_bbox detection, centerX = cX,
                                centerY = cY, previousY = cY,
                                lastSeen = dateNow w (clockReads st + 1), crossed = False,
                                direction = None, framesSinceCrossing = 0\<rparr>
               in st\<lparr>trackedPeople := mapSet ident newPerson (trackedPeople st),
                      clockReads := clockReads st + 2,
                      matchedPeople := insert ident (matchedPeople st)\<rparr>)"

text \<open>
  Lines 480--488: the identifiers of the unmatched people last seen more than 500 ms ago,
  with one clock reading for every unmatched person.
\<close>

fun collectUnmatched ::
  "World \<Rightarrow> string set \<Rightarrow> TrackedPerson list \<Rightarrow> nat \<Rightarrow> string list \<times> nat" where
  "collectUnmatched w matched [] k = ([], k)"
| "collectUnmatched w matched (person # people) k =
     (if pid person \<notin> matched then
        (case collectUnmatched w matched people (k + 1) of
           (unmatched, k') \<Rightarrow>
             (if 500 < dateNow w k - lastSeen person then pid person # unmatched
              else unmatched, k'))
      else collectUnmatched w matched people k)"

text \<open>
  \<^verbatim>\<open>detectPeopleWithCrossing\<close> (lines 344--512) in three parts. The first is lines
  355--477 on the filtered detections: the cleanup, the cooldown pass and the loop over the
  detections, sorted by the stable sort of line 380, descending in the score. The clock has
  been read once before (the timestamp of \<^verbatim>\<open>detectPeople\<close>).
\<close>

definition associateDetections :: "World \<Rightarrow> Detection list \<Rightarrow> real \<Rightarrow> Tracker \<Rightarrow> FrameState" where
  "associateDetections w result frameHeight tr =
     (let k0 = clockReads tr + 1;
          crossingLineY = frameHeight * CROSSING_LINE_POSITION;
          cleaned = cleanupTrackedPeople (dateNow w k0) (trackedPeople tr);
          cooled = cooldownPass cleaned;
          sortedDetections = sort_key (\<lambda>d. - d_score d) result
      in foldl (processDetection w crossingLineY)
           \<lparr>trackedPeople = cooled, clockReads = k0 + 1, matchedPeople = {},
            countIn = 0, countOut = 0\<rparr>
           sortedDetections)"

text \<open>Lines 479--496: the unmatched people past the grace period are deleted.\<close>

definition removeUnmatched :: "World \<Rightarrow> FrameState \<Rightarrow> Tracker" where
  "removeUnmatched w st =
     (case collectUnmatched w (matchedPeople st) (trackedPeople st) (clockReads st) of
        (unmatchedPeople, k') \<Rightarrow>
          \<lparr>trackedPeople = foldl (\<lambda>people k. mapDelete k people) (trackedPeople st)
                            unmatchedPeople,
           clockReads = k'\<rparr>)"

text \<open>
  The whole call, on the predictions of the model for the frame. The only \<^verbatim>\<open>await\<close> of
  the function is the detection of line 353; everything after it runs to completion without
  interruption, so a call is one step on the module state.
\<close>

definition detectPeopleWithCrossing ::
  "World \<Rightarrow> Detection list \<Rightarrow> real \<Rightarrow> Tracker \<Rightarrow> CrossingResult \<times> Tracker" where
  "detectPeopleWithCrossing w predictions frameHeight tr =
     (let result = detectPeople predictions;
          st = associateDetections w result frameHeight tr
      in (\<lparr>r_detections = result, r_peopleCount = length result,
           r_countIn = countIn st, r_countOut = countOut st\<rparr>,
          removeUnmatched w st))"

text \<open>\<^verbatim>\<open>resetTracking\<close> (lines 602--604).\<close>

definition resetTracking :: "Tracker \<Rightarrow> Tracker" where
  "resetTracking tr = tr\<lparr>trackedPeople := []\<rparr>"

section \<open>The caller\<close>

text \<open>
  The caller (\<^verbatim>\<open>src/src/pages/Analytics.tsx\<close>, lines 507--525) calls
  \<^verbatim>\<open>detectPeopleWithCrossing\<close> once per sampled frame, one call after the other, and adds
  up the counts. A frame is the predictions of the model and the frame height.
\<close>

fun runFrames :: "World \<Rightarrow> (Detection list \<times> real) list \<Rightarrow> Tracker \<Rightarrow> CrossingResult list \<times> Tracker" where
  "runFrames w [] tr = ([], tr)"
| "runFrames w ((predictions, frameHeight) # frames) tr =
     (case detectPeopleWithCrossing w predictions frameHeight tr of
        (r, tr') \<Rightarrow> (case runFrames w frames tr' of (rs, tr'') \<Rightarrow> (r # rs, tr'')))"

section \<open>Notions for the statements\<close>

text \<open>The people of the registry that no detection of the frame has claimed so far.\<close>

definition unmatchedOf :: "FrameState \<Rightarrow> TrackedPerson list" where
  "unmatchedOf st = filter (\<lambda>q. pid q \<notin> matchedPeople st) (trackedPeople st)"

text \<open>The crossing state of a person as claim C9 describes it, and of a registry.\<close>

definition trackInv :: "TrackedPerson \<Rightarrow> bool" where
  "trackInv p \<longleftrightarrow>
     (\<not> crossed p \<longrightarrow> framesSinceCrossing p = 0 \<and> direction p = None)
     \<and> (crossed p \<longrightarrow> direction p \<in> {Some In, Some Out})
     \<and> framesSinceCrossing p < CROSSING_COOLDOWN"

definition registryInv :: "Tracker \<Rightarrow> bool" where
  "registryInv tr \<longleftrightarrow> (\<forall>p \<in> set (trackedPeople tr). trackInv p)"

text \<open>
  A detection with box \<open>box\<close> and centre \<open>(cX, cY)\<close> prefers the person \<open>own\<close> to the person
  \<open>other\<close>: \<open>other\<close> is beyond the tracking threshold, or scores strictly less than \<open>own\<close>.
\<close>

definition prefers :: "bbox \<Rightarrow> real \<Rightarrow> real \<Rightarrow> TrackedPerson \<Rightarrow> TrackedPerson \<Rightarrow> bool" where
  "prefers box cX cY own other \<longleftrightarrow>
     TRACKING_THRESHOLD < calculateDistance cX cY (centerX other) (centerY other)
     \<or> js_gt (candidateScore box cX cY own) (candidateScore box cX cY other)"

text \<open>
  The identifiers of a list of people are in order when no two people share one and each
  is a string that the generator of line 460 returned at one of the first \<open>K\<close> clock
  readings.
\<close>

definition registryIds :: "World \<Rightarrow> nat \<Rightarrow> TrackedPerson list \<Rightarrow> bool" where
  "registryIds w K people \<longleftrightarrow>
     distinct (map pid people)
     \<and> (\<forall>p \<in> set people. \<exists>k<K. pid p = newId (dateNow w k) (randomSuffix w k))"

section \<open>The score as the specification words it\<close>

text \<open>
  The standard intersection over union of two boxes and the weighted score of section 4.2
  of the specification, over the reals, to be compared with \<open>calculateIoU\<close> and
  \<open>candidateScore\<close>.
\<close>

definition spec_iou :: "bbox \<Rightarrow> bbox \<Rightarrow> real" where
  "spec_iou boxA boxB =
     (case boxA of (xa, ya, wa, ha) \<Rightarrow>
      case boxB of (xb, yb, wb, hb) \<Rightarrow>
        let overlapW = max 0 (min (xa + wa) (xb + wb) - max xa xb);
            overlapH = max 0 (min (ya + ha) (yb + hb) - max ya yb);
            inter = overlapW * overlapH
        in inter / (wa * ha + wb * hb - inter))"

definition spec_score :: "bbox \<Rightarrow> real \<Rightarrow> real \<Rightarrow> TrackedPerson \<Rightarrow> real" where
  "spec_score box cX cY track =
     (case box of (xa, ya, wa, ha) \<Rightarrow>
      case bbox track of (xb, yb, wb, hb) \<Rightarrow>
        let distance = sqrt ((centerX track - cX)\<^sup>2 + (centerY track - cY)\<^sup>2);
            areaA = wa * ha;
            areaB = wb * hb;
            sizeSimilarity = min areaA areaB / max areaA areaB
        in 0.5 * spec_iou box (bbox track)
           + 0.3 * max 0 (1 - distance / TRACKING_THRESHOLD)
           + 0.2 * sizeSimilarity)"

text \<open>
  A box of positive width and height, and the preference of a detection for the track \<open>own\<close>
  over the track \<open>other\<close> in the terms of the specification: \<open>other\<close> is further than the
  tracking threshold from the centre of the detection, or its score is strictly lower.
\<close>

definition positiveBox :: "bbox \<Rightarrow> bool" where
  "positiveBox box = (case box of (x, y, w, h) \<Rightarrow> 0 < w \<and> 0 < h)"

definition spec_prefers ::
  "bbox \<Rightarrow> real \<Rightarrow> real \<Rightarrow> TrackedPerson \<Rightarrow> TrackedPerson \<Rightarrow> bool" where
  "spec_prefers box cX cY own other \<longleftrightarrow>
     TRACKING_THRESHOLD < sqrt ((centerX other - cX)\<^sup>2 + (centerY other - cY)\<^sup>2)
     \<or> spec_score box cX cY other < spec_score box cX cY own"

section \<open>Intersection over union\<close>

lemmas constants =
  CROSSING_LINE_POSITION_def TRACKING_THRESHOLD_def TRACKING_TIMEOUT_def MIN_CONFIDENCE_def
  CROSSING_COOLDOWN_def MIN_DISTANCE_FOR_CROSSING_def











section \<open>Association: the closest person\<close>

lemma js_gt_trans: "js_gt a b \<Longrightarrow> js_gt b c \<Longrightarrow> js_gt a c"
  by (cases a; cases b; cases c) simp_all

lemma js_gt_irrefl: "\<not> js_gt a a"
  by (cases a) simp_all

lemma not_js_gt_mono: "\<not> js_gt q m \<Longrightarrow> js_gt m' m \<Longrightarrow> \<not> js_gt q m'"
  by (cases q; cases m; cases m') simp_all

lemma closestStep_skip:
  "TRACKING_THRESHOLD < calculateDistance cX cY (centerX q) (centerY q) \<Longrightarrow>
   closestStep box cX cY acc q = acc"
  by (simp add: closestStep_def)

lemma foldl_closestStep_filter:
  "foldl (closestStep box cX cY) acc people =
   foldl (closestStep box cX cY) acc
     (filter (\<lambda>q. calculateDistance cX cY (centerX q) (centerY q) \<le> TRACKING_THRESHOLD) people)"
  by (induction people arbitrary: acc) (simp_all add: closestStep_skip not_le)

text \<open>What the loop of \<open>findClosestPerson\<close> keeps true, from any accumulator.\<close>

lemma foldl_closestStep_inv:
  assumes "foldl (closestStep box cX cY) (c, m) people = (c', m')"
  shows "((c' = c \<and> m' = m) \<or>
          (\<exists>p \<in> set people. c' = Some p
              \<and> calculateDistance cX cY (centerX p) (centerY p) \<le> TRACKING_THRESHOLD
              \<and> m' = candidateScore box cX cY p \<and> js_gt m' m))
         \<and> (\<forall>q \<in> set people.
               calculateDistance cX cY (centerX q) (centerY q) \<le> TRACKING_THRESHOLD
               \<longrightarrow> \<not> js_gt (candidateScore box cX cY q) m')"
  using assms
proof (induction people arbitrary: c m)
  case Nil
  then show ?case by simp
next
  case (Cons a people)
  obtain c1 m1 where s: "closestStep box cX cY (c, m) a = (c1, m1)"
    by (cases "closestStep box cX cY (c, m) a") auto
  with Cons.prems have f: "foldl (closestStep box cX cY) (c1, m1) people = (c', m')" by simp
  note ih = Cons.IH[OF f]
  have mono: "m' = m1 \<or> js_gt m' m1" using ih by auto
  have first: "(c1 = c \<and> m1 = m) \<or>
     (c1 = Some a \<and> calculateDistance cX cY (centerX a) (centerY a) \<le> TRACKING_THRESHOLD
       \<and> m1 = candidateScore box cX cY a \<and> js_gt m1 m)"
    using s by (auto simp: closestStep_def split: if_splits)
  have a_le: "calculateDistance cX cY (centerX a) (centerY a) \<le> TRACKING_THRESHOLD
      \<Longrightarrow> \<not> js_gt (candidateScore box cX cY a) m1"
    using s by (auto simp: closestStep_def js_gt_irrefl split: if_splits)
  have a_fin: "calculateDistance cX cY (centerX a) (centerY a) \<le> TRACKING_THRESHOLD
      \<Longrightarrow> \<not> js_gt (candidateScore box cX cY a) m'"
    using a_le mono not_js_gt_mono by blast
  have part1: "(c' = c \<and> m' = m) \<or>
          (\<exists>p \<in> set (a # people). c' = Some p
              \<and> calculateDistance cX cY (centerX p) (centerY p) \<le> TRACKING_THRESHOLD
              \<and> m' = candidateScore box cX cY p \<and> js_gt m' m)"
    using ih first js_gt_trans by (elim conjE disjE bexE) auto
  show ?case using part1 a_fin ih by auto
qed

lemma findClosestPerson_Some:
  assumes "findClosestPerson people box cX cY = Some p"
  shows "p \<in> set people"
    and "calculateDistance cX cY (centerX p) (centerY p) \<le> TRACKING_THRESHOLD"
    and "js_gt (candidateScore box cX cY p) (Fin 0.3)"
    and "\<forall>q \<in> set people.
           calculateDistance cX cY (centerX q) (centerY q) \<le> TRACKING_THRESHOLD
           \<longrightarrow> \<not> js_gt (candidateScore box cX cY q) (candidateScore box cX cY p)"
proof -
  obtain c' m' where f: "foldl (closestStep box cX cY) (None, Fin 0.3) people = (c', m')"
    by (cases "foldl (closestStep box cX cY) (None, Fin 0.3) people") auto
  with assms have c': "c' = Some p" by (simp add: findClosestPerson_def)
  note inv = foldl_closestStep_inv[OF f]
  from inv c' show "p \<in> set people"
    "calculateDistance cX cY (centerX p) (centerY p) \<le> TRACKING_THRESHOLD"
    "js_gt (candidateScore box cX cY p) (Fin 0.3)"
    by auto
  from inv c' have "m' = candidateScore box cX cY p" by auto
  with inv show "\<forall>q \<in> set people.
           calculateDistance cX cY (centerX q) (centerY q) \<le> TRACKING_THRESHOLD
           \<longrightarrow> \<not> js_gt (candidateScore box cX cY q) (candidateScore box cX cY p)"
    by simp
qed

lemma findClosestPerson_None_iff:
  "findClosestPerson people box cX cY = None \<longleftrightarrow>
     (\<forall>q \<in> set people.
        calculateDistance cX cY (centerX q) (centerY q) \<le> TRACKING_THRESHOLD
        \<longrightarrow> \<not> js_gt (candidateScore box cX cY q) (Fin 0.3))"
proof -
  obtain c' m' where f: "foldl (closestStep box cX cY) (None, Fin 0.3) people = (c', m')"
    by (cases "foldl (closestStep box cX cY) (None, Fin 0.3) people") auto
  note inv = foldl_closestStep_inv[OF f]
  have fc: "findClosestPerson people box cX cY = c'" using f by (simp add: findClosestPerson_def)
  show ?thesis
  proof
    assume "findClosestPerson people box cX cY = None"
    with fc inv have "m' = Fin 0.3" by auto
    with inv show "\<forall>q \<in> set people.
        calculateDistance cX cY (centerX q) (centerY q) \<le> TRACKING_THRESHOLD
        \<longrightarrow> \<not> js_gt (candidateScore box cX cY q) (Fin 0.3)" by simp
  next
    assume a: "\<forall>q \<in> set people.
        calculateDistance cX cY (centerX q) (centerY q) \<le> TRACKING_THRESHOLD
        \<longrightarrow> \<not> js_gt (candidateScore box cX cY q) (Fin 0.3)"
    show "findClosestPerson people box cX cY = None"
    proof (rule ccontr)
      assume "findClosestPerson people box cX cY \<noteq> None"
      then obtain p where "findClosestPerson people box cX cY = Some p" by auto
      from findClosestPerson_Some[OF this] a show False by blast
    qed
  qed
qed

lemma findClosestPerson_filter:
  "findClosestPerson people box cX cY =
   findClosestPerson
     (filter (\<lambda>q. calculateDistance cX cY (centerX q) (centerY q) \<le> TRACKING_THRESHOLD) people)
     box cX cY"
  unfolding findClosestPerson_def by (subst foldl_closestStep_filter) simp

lemma candidateScore_spec:
  assumes "0 < w1" "0 < h1" "0 < w2" "0 < h2" "bbox p = (x2, y2, w2, h2)"
  shows "candidateScore (x1, y1, w1, h1) cX cY p = Fin (spec_score (x1, y1, w1, h1) cX cY p)"
proof -
  define xl yt xr yb where "xl = max x1 x2" and "yt = max y1 y2"
    and "xr = min (x1 + w1) (x2 + w2)" and "yb = min (y1 + h1) (y2 + h2)"
  note d = xl_def yt_def xr_def yb_def
  have a: "0 < w1 * h1" "0 < w2 * h2" using assms by simp_all
  have iou: "calculateIoU (x1, y1, w1, h1) (x2, y2, w2, h2) = Fin (spec_iou (x1, y1, w1, h1) (x2, y2, w2, h2))"
  proof (cases "xr < xl \<or> yb < yt")
    case True
    then have "max 0 (xr - xl) * max 0 (yb - yt) = 0" by (auto simp: max_def)
    with True show ?thesis
      by (simp add: calculateIoU_def spec_iou_def Let_def flip: d)
  next
    case False
    then have m: "max 0 (xr - xl) = xr - xl" "max 0 (yb - yt) = yb - yt" by (auto simp: max_def)
    have i0: "0 \<le> (xr - xl) * (yb - yt)" using False by simp
    have b: "xr - xl \<le> w1" "yb - yt \<le> h1"
      by (auto simp: d min_def max_def)
    have "(xr - xl) * (yb - yt) \<le> w1 * h1" using False b by (intro mult_mono) auto
    with a have "w1 * h1 + w2 * h2 - (xr - xl) * (yb - yt) \<noteq> 0" by linarith
    with False m show ?thesis
      by (simp add: calculateIoU_def spec_iou_def Let_def js_div_def flip: d)
  qed
  have mx: "max (w1 * h1) (w2 * h2) \<noteq> 0" using a by linarith
  have dist: "calculateDistance cX cY (centerX p) (centerY p)
     = sqrt ((centerX p - cX)\<^sup>2 + (centerY p - cY)\<^sup>2)" by (simp add: calculateDistance_def)
  show ?thesis
    unfolding candidateScore_def spec_score_def Let_def assms(5) dist
    by (simp add: iou js_div_def mx)
qed

section \<open>One detection of the loop\<close>

subsection \<open>The matched branch\<close>


lemma updateExistingPerson_still:
  "\<bar>cY - centerY p\<bar> \<le> MIN_DISTANCE_FOR_CROSSING \<or> \<bar>cY - centerY p\<bar> \<le> \<bar>cX - centerX p\<bar> * 0.1 \<Longrightarrow>
   updateExistingPerson l box cX cY now p =
     (p\<lparr>bbox := box, centerX := cX, previousY := centerY p, centerY := cY, lastSeen := now\<rparr>,
      0, 0)"
  by (auto simp: updateExistingPerson_def Let_def)

lemma updateExistingPerson_down:
  "\<not> crossed p \<Longrightarrow> centerY p < l \<Longrightarrow> l < cY \<Longrightarrow>
   MIN_DISTANCE_FOR_CROSSING < \<bar>cY - centerY p\<bar> \<Longrightarrow> \<bar>cX - centerX p\<bar> * 0.1 < \<bar>cY - centerY p\<bar> \<Longrightarrow>
   updateExistingPerson l box cX cY now p =
     (p\<lparr>bbox := box, centerX := cX, previousY := centerY p, centerY := cY, lastSeen := now,
        direction := Some In, crossed := True, framesSinceCrossing := 0\<rparr>, 1, 0)"
  by (simp add: updateExistingPerson_def Let_def)

lemma updateExistingPerson_up:
  "\<not> crossed p \<Longrightarrow> l < centerY p \<Longrightarrow> cY < l \<Longrightarrow>
   MIN_DISTANCE_FOR_CROSSING < \<bar>cY - centerY p\<bar> \<Longrightarrow> \<bar>cX - centerX p\<bar> * 0.1 < \<bar>cY - centerY p\<bar> \<Longrightarrow>
   updateExistingPerson l box cX cY now p =
     (p\<lparr>bbox := box, centerX := cX, previousY := centerY p, centerY := cY, lastSeen := now,
        direction := Some Out, crossed := True, framesSinceCrossing := 0\<rparr>, 0, 1)"
  by (simp add: updateExistingPerson_def Let_def)

text \<open>Every outcome of the matched branch: no event, one entry or one exit.\<close>

lemma updateExistingPerson_cases:
  obtains
    (none) "updateExistingPerson l box cX cY now p =
       (p\<lparr>bbox := box, centerX := cX, previousY := centerY p, centerY := cY, lastSeen := now\<rparr>,
        0, 0)"
  | (down) "\<not> crossed p" "centerY p < l" "l < cY"
      "MIN_DISTANCE_FOR_CROSSING < \<bar>cY - centerY p\<bar>" "\<bar>cX - centerX p\<bar> * 0.1 < \<bar>cY - centerY p\<bar>"
      "updateExistingPerson l box cX cY now p =
       (p\<lparr>bbox := box, centerX := cX, previousY := centerY p, centerY := cY, lastSeen := now,
          direction := Some In, crossed := True, framesSinceCrossing := 0\<rparr>, 1, 0)"
  | (up) "\<not> crossed p" "l < centerY p" "cY < l"
      "MIN_DISTANCE_FOR_CROSSING < \<bar>cY - centerY p\<bar>" "\<bar>cX - centerX p\<bar> * 0.1 < \<bar>cY - centerY p\<bar>"
      "updateExistingPerson l box cX cY now p =
       (p\<lparr>bbox := box, centerX := cX, previousY := centerY p, centerY := cY, lastSeen := now,
          direction := Some Out, crossed := True, framesSinceCrossing := 0\<rparr>, 0, 1)"
proof (cases "\<not> crossed p \<and> MIN_DISTANCE_FOR_CROSSING < \<bar>cY - centerY p\<bar>
    \<and> \<bar>cX - centerX p\<bar> * 0.1 < \<bar>cY - centerY p\<bar>")
  case False
  then have "updateExistingPerson l box cX cY now p =
       (p\<lparr>bbox := box, centerX := cX, previousY := centerY p, centerY := cY, lastSeen := now\<rparr>,
        0, 0)"
    by (auto simp: updateExistingPerson_def Let_def)
  then show ?thesis by (rule none)
next
  case True
  show ?thesis
  proof (cases "centerY p < l \<and> l < cY")
    case d: True
    with True show ?thesis by (intro down updateExistingPerson_down) auto
  next
    case nd: False
    show ?thesis
    proof (cases "l < centerY p \<and> cY < l")
      case u: True
      with True show ?thesis by (intro up updateExistingPerson_up) auto
    next
      case nu: False
      with nd True have "updateExistingPerson l box cX cY now p =
       (p\<lparr>bbox := box, centerX := cX, previousY := centerY p, centerY := cY, lastSeen := now\<rparr>,
        0, 0)"
        by (auto simp: updateExistingPerson_def Let_def)
      then show ?thesis by (rule none)
    qed
  qed
qed

lemma updateExistingPerson_pid [simp]:
  "pid (fst (updateExistingPerson l box cX cY now p)) = pid p"
  by (cases rule: updateExistingPerson_cases[of l box cX cY now p]) simp_all

subsection \<open>One detection\<close>

lemma processDetection_matched:
  assumes "d_bbox det = (x, y, wd, ht)"
    and "findClosestPerson (trackedPeople st) (x, y, wd, ht) (x + wd / 2) (y + ht / 2) = Some p"
    and "pid p \<notin> matchedPeople st"
    and "updateExistingPerson l (x, y, wd, ht) (x + wd / 2) (y + ht / 2) (dateNow w (clockReads st)) p
          = (p', dIn, dOut)"
  shows "processDetection w l st det =
     st\<lparr>trackedPeople := map (\<lambda>q. if pid q = pid p then p' else q) (trackedPeople st),
        clockReads := clockReads st + 1,
        matchedPeople := insert (pid p) (matchedPeople st),
        countIn := countIn st + dIn,
        countOut := countOut st + dOut\<rparr>"
  using assms by (simp add: processDetection_def Let_def)

lemma processDetection_claimed:
  assumes "d_bbox det = (x, y, wd, ht)"
    and "findClosestPerson (trackedPeople st) (x, y, wd, ht) (x + wd / 2) (y + ht / 2) = Some p"
    and "pid p \<in> matchedPeople st"
  shows "processDetection w l st det = st"
  using assms by (simp add: processDetection_def Let_def)

lemma processDetection_new:
  assumes "d_bbox det = (x, y, wd, ht)"
    and "findClosestPerson (trackedPeople st) (x, y, wd, ht) (x + wd / 2) (y + ht / 2) = None"
  shows "processDetection w l st det =
     st\<lparr>trackedPeople :=
          mapSet (newId (dateNow w (clockReads st)) (randomSuffix w (clockReads st)))
            \<lparr>pid = newId (dateNow w (clockReads st)) (randomSuffix w (clockReads st)),
             bbox = (x, y, wd, ht), centerX = x + wd / 2, centerY = y + ht / 2,
             previousY = y + ht / 2, lastSeen = dateNow w (clockReads st + 1),
             crossed = False, direction = None, framesSinceCrossing = 0\<rparr>
            (trackedPeople st),
        clockReads := clockReads st + 2,
        matchedPeople :=
          insert (newId (dateNow w (clockReads st)) (randomSuffix w (clockReads st)))
            (matchedPeople st)\<rparr>"
  using assms by (simp add: processDetection_def Let_def)

lemma abs_le_calculateDistance:
  "\<bar>x2 - x1\<bar> \<le> calculateDistance x1 y1 x2 y2"
  unfolding calculateDistance_def by (rule real_le_rsqrt) (simp add: power2_eq_square)

lemma calculateDistance_vertical: "calculateDistance x y1 x y2 = \<bar>y2 - y1\<bar>"
  by (simp add: calculateDistance_def)

lemma calculateDistance_horizontal: "calculateDistance x1 y x2 y = \<bar>x2 - x1\<bar>"
  by (simp add: calculateDistance_def)

lemma calculateDistance_gt_iff:
  "0 \<le> t \<Longrightarrow> t < calculateDistance x1 y1 x2 y2 \<longleftrightarrow> t\<^sup>2 < (x2 - x1)\<^sup>2 + (y2 - y1)\<^sup>2"
  unfolding calculateDistance_def
  by (metis real_sqrt_less_iff real_sqrt_abs abs_of_nonneg)

subsection \<open>Evaluation on concrete scenes\<close>

declare showNat.simps [simp del]

lemmas eval_closest =
  findClosestPerson_def closestStep_def candidateScore_def calculateIoU_def js_div_def
  calculateDistance_vertical calculateDistance_horizontal constants Let_def

lemmas eval_frame =
  detectPeopleWithCrossing_def associateDetections_def removeUnmatched_def detectPeople_def
  cleanupTrackedPeople_def cooldownPass_def cooldownStep_def mapDelete_def constants Let_def

section \<open>Movement filters\<close>

lemma processDetection_counts:
  "(countIn (processDetection w l st det) = countIn st \<and>
    countOut (processDetection w l st det) = countOut st) \<or>
   (countIn (processDetection w l st det) = countIn st + 1 \<and>
    countOut (processDetection w l st det) = countOut st) \<or>
   (countIn (processDetection w l st det) = countIn st \<and>
    countOut (processDetection w l st det) = countOut st + 1)"
proof -
  obtain x y wd ht where b: "d_bbox det = (x, y, wd, ht)" by (cases "d_bbox det") auto
  show ?thesis
  proof (cases "findClosestPerson (trackedPeople st) (x, y, wd, ht) (x + wd / 2) (y + ht / 2)")
    case None
    show ?thesis by (simp add: processDetection_new[OF b None])
  next
    case (Some p)
    show ?thesis
    proof (cases "pid p \<in> matchedPeople st")
      case True
      show ?thesis by (simp add: processDetection_claimed[OF b Some True])
    next
      case False
      show ?thesis
        by (cases rule: updateExistingPerson_cases[of l "(x, y, wd, ht)" "x + wd / 2" "y + ht / 2"
              "dateNow w (clockReads st)" p])
          (simp_all add: processDetection_matched[OF b Some False])
    qed
  qed
qed

text \<open>
  C6. A detection whose closest person moved vertically by at most
  \<open>MIN_DISTANCE_FOR_CROSSING\<close>, or by at most a tenth of its horizontal movement, counts
  nothing, on whichever sides of the line the two centres lie: both counters keep their
  values, and a person that is claimed only has its position and timestamp updated.
\<close>

theorem no_event_without_movement:
  assumes "d_bbox det = (x, y, wd, ht)"
    and "findClosestPerson (trackedPeople st) (x, y, wd, ht) (x + wd / 2) (y + ht / 2) = Some p"
    and "\<bar>(y + ht / 2) - centerY p\<bar> \<le> MIN_DISTANCE_FOR_CROSSING
         \<or> \<bar>(y + ht / 2) - centerY p\<bar> \<le> \<bar>(x + wd / 2) - centerX p\<bar> * 0.1"
  shows "countIn (processDetection w l st det) = countIn st
       \<and> countOut (processDetection w l st det) = countOut st
       \<and> (pid p \<notin> matchedPeople st \<longrightarrow>
            trackedPeople (processDetection w l st det) =
              map (\<lambda>q. if pid q = pid p
                        then p\<lparr>bbox := (x, y, wd, ht), centerX := x + wd / 2,
                               previousY := centerY p, centerY := y + ht / 2,
                               lastSeen := dateNow w (clockReads st)\<rparr>
                        else q)
                (trackedPeople st))"
proof (cases "pid p \<in> matchedPeople st")
  case True
  show ?thesis using True by (simp add: processDetection_claimed[OF assms(1,2) True])
next
  case False
  show ?thesis
    using False
    by (simp add: processDetection_matched[OF assms(1,2) False updateExistingPerson_still[OF assms(3)]])
qed

text \<open>
  With the line at \<open>y = 100\<close>: a person at \<open>y = 97\<close> reported at \<open>y = 101\<close>, and a person
  at \<open>y = 90\<close> reported at \<open>y = 111\<close>, 220 pixels to the right.
\<close>

theorem no_event_without_movement_witness:
  "trackedPeople (processDetection \<lparr>dateNow = (\<lambda>k. 1000), randomSuffix = (\<lambda>k. ''r'')\<rparr> 100
      \<lparr>trackedPeople = [\<lparr>pid = ''a'', bbox = (100, 72, 50, 50), centerX = 125, centerY = 97,
          previousY = 97, lastSeen = 900, crossed = False, direction = None,
          framesSinceCrossing = 0\<rparr>],
       clockReads = 0, matchedPeople = {}, countIn = 0, countOut = 0\<rparr>
      \<lparr>d_bbox = (100, 76, 50, 50), d_class = ''person'', d_score = 0.9\<rparr>)
     = [\<lparr>pid = ''a'', bbox = (100, 76, 50, 50), centerX = 125, centerY = 101,
          previousY = 97, lastSeen = 1000, crossed = False, direction = None,
          framesSinceCrossing = 0\<rparr>]
   \<and> countIn (processDetection \<lparr>dateNow = (\<lambda>k. 1000), randomSuffix = (\<lambda>k. ''r'')\<rparr> 100
      \<lparr>trackedPeople = [\<lparr>pid = ''a'', bbox = (100, 72, 50, 50), centerX = 125, centerY = 97,
          previousY = 97, lastSeen = 900, crossed = False, direction = None,
          framesSinceCrossing = 0\<rparr>],
       clockReads = 0, matchedPeople = {}, countIn = 0, countOut = 0\<rparr>
      \<lparr>d_bbox = (100, 76, 50, 50), d_class = ''person'', d_score = 0.9\<rparr>) = 0
   \<and> countOut (processDetection \<lparr>dateNow = (\<lambda>k. 1000), randomSuffix = (\<lambda>k. ''r'')\<rparr> 100
      \<lparr>trackedPeople = [\<lparr>pid = ''a'', bbox = (100, 72, 50, 50), centerX = 125, centerY = 97,
          previousY = 97, lastSeen = 900, crossed = False, direction = None,
          framesSinceCrossing = 0\<rparr>],
       clockReads = 0, matchedPeople = {}, countIn = 0, countOut = 0\<rparr>
      \<lparr>d_bbox = (100, 76, 50, 50), d_class = ''person'', d_score = 0.9\<rparr>) = 0
   \<and> trackedPeople (processDetection \<lparr>dateNow = (\<lambda>k. 1000), randomSuffix = (\<lambda>k. ''r'')\<rparr> 100
      \<lparr>trackedPeople = [\<lparr>pid = ''b'', bbox = (100, 65, 50, 50), centerX = 125, centerY = 90,
          previousY = 90, lastSeen = 900, crossed = False, direction = None,
          framesSinceCrossing = 0\<rparr>],
       clockReads = 0, matchedPeople = {}, countIn = 0, countOut = 0\<rparr>
      \<lparr>d_bbox = (320, 86, 50, 50), d_class = ''person'', d_score = 0.9\<rparr>)
     = [\<lparr>pid = ''b'', bbox = (320, 86, 50, 50), centerX = 345, centerY = 111,
          previousY = 90, lastSeen = 1000, crossed = False, direction = None,
          framesSinceCrossing = 0\<rparr>]
   \<and> countIn (processDetection \<lparr>dateNow = (\<lambda>k. 1000), randomSuffix = (\<lambda>k. ''r'')\<rparr> 100
      \<lparr>trackedPeople = [\<lparr>pid = ''b'', bbox = (100, 65, 50, 50), centerX = 125, centerY = 90,
          previousY = 90, lastSeen = 900, crossed = False, direction = None,
          framesSinceCrossing = 0\<rparr>],
       clockReads = 0, matchedPeople = {}, countIn = 0, countOut = 0\<rparr>
      \<lparr>d_bbox = (320, 86, 50, 50), d_class = ''person'', d_score = 0.9\<rparr>) = 0
   \<and> countOut (processDetection \<lparr>dateNow = (\<lambda>k. 1000), randomSuffix = (\<lambda>k. ''r'')\<rparr> 100
      \<lparr>trackedPeople = [\<lparr>pid = ''b'', bbox = (100, 65, 50, 50), centerX = 125, centerY = 90,
          previousY = 90, lastSeen = 900, crossed = False, direction = None,
          framesSinceCrossing = 0\<rparr>],
       clockReads = 0, matchedPeople = {}, countIn = 0, countOut = 0\<rparr>
      \<lparr>d_bbox = (320, 86, 50, 50), d_class = ''person'', d_score = 0.9\<rparr>) = 0"
proof -
  let ?w = "\<lparr>dateNow = (\<lambda>k. 1000), randomSuffix = (\<lambda>k. ''r'')\<rparr>"
  let ?p = "\<lparr>pid = ''a'', bbox = (100, 72, 50, 50), centerX = 125, centerY = 97,
          previousY = 97, lastSeen = 900, crossed = False, direction = None,
          framesSinceCrossing = 0\<rparr>"
  let ?st = "\<lparr>trackedPeople = [?p], clockReads = 0, matchedPeople = {}, countIn = 0, countOut = 0\<rparr>"
  let ?det = "\<lparr>d_bbox = (100, 76, 50, 50), d_class = ''person'', d_score = 0.9\<rparr>"
  let ?q = "\<lparr>pid = ''b'', bbox = (100, 65, 50, 50), centerX = 125, centerY = 90,
          previousY = 90, lastSeen = 900, crossed = False, direction = None,
          framesSinceCrossing = 0\<rparr>"
  let ?sq = "\<lparr>trackedPeople = [?q], clockReads = 0, matchedPeople = {}, countIn = 0, countOut = 0\<rparr>"
  let ?dq = "\<lparr>d_bbox = (320, 86, 50, 50), d_class = ''person'', d_score = 0.9\<rparr>"
  have b: "d_bbox ?det = (100, 76, 50, 50)" by simp
  have f: "findClosestPerson (trackedPeople ?st) (100, 76, 50, 50) (100 + 50 / 2) (76 + 50 / 2) = Some ?p"
    by (simp add: eval_closest)
  have m: "\<bar>(76 + 50 / 2) - centerY ?p\<bar> \<le> MIN_DISTANCE_FOR_CROSSING
         \<or> \<bar>(76 + 50 / 2) - centerY ?p\<bar> \<le> \<bar>(100 + 50 / 2) - centerX ?p\<bar> * 0.1"
    by (simp add: constants)
  have "sqrt 48841 = 221" by (rule real_sqrt_unique) simp_all
  then have d: "calculateDistance 345 111 125 90 = 221" by (simp add: calculateDistance_def)
  have bq: "d_bbox ?dq = (320, 86, 50, 50)" by simp
  have fq: "findClosestPerson (trackedPeople ?sq) (320, 86, 50, 50) (320 + 50 / 2) (86 + 50 / 2) = Some ?q"
    by (simp add: findClosestPerson_def closestStep_def candidateScore_def calculateIoU_def
        js_div_def d constants)
  have mq: "\<bar>(86 + 50 / 2) - centerY ?q\<bar> \<le> MIN_DISTANCE_FOR_CROSSING
         \<or> \<bar>(86 + 50 / 2) - centerY ?q\<bar> \<le> \<bar>(320 + 50 / 2) - centerX ?q\<bar> * 0.1"
    by (simp add: constants)
  show ?thesis
    using no_event_without_movement[OF b f m, of ?w 100]
      no_event_without_movement[OF bq fq mq, of ?w 100]
    by simp
qed

section \<open>The score\<close>

text \<open>
  C7. On boxes of positive width and height the score computed by the code is the weighted
  sum \<open>0.5 * iou + 0.3 * max 0 (1 - distance / TRACKING_THRESHOLD) + 0.2 * sizeSimilarity\<close>
  of the specification. People further than \<open>TRACKING_THRESHOLD\<close> from the detection
  play no part: the result is the same with them removed from the registry, and the person
  returned is within the threshold, scores above \<open>0.3\<close> and is not beaten by any other
  person within the threshold.
\<close>

theorem candidateScore_refines_specification:
  "(0 < w1 \<and> 0 < h1 \<and> 0 < w2 \<and> 0 < h2 \<and> bbox q = (x2, y2, w2, h2) \<longrightarrow>
      candidateScore (x1, y1, w1, h1) cX cY q = Fin (spec_score (x1, y1, w1, h1) cX cY q))
   \<and> findClosestPerson people box cX cY =
       findClosestPerson
         (filter (\<lambda>q. calculateDistance cX cY (centerX q) (centerY q) \<le> TRACKING_THRESHOLD) people)
         box cX cY
   \<and> (\<forall>p. findClosestPerson people box cX cY = Some p \<longrightarrow>
         p \<in> set people
         \<and> calculateDistance cX cY (centerX p) (centerY p) \<le> TRACKING_THRESHOLD
         \<and> js_gt (candidateScore box cX cY p) (Fin 0.3)
         \<and> (\<forall>q \<in> set people.
               calculateDistance cX cY (centerX q) (centerY q) \<le> TRACKING_THRESHOLD
               \<longrightarrow> \<not> js_gt (candidateScore box cX cY q) (candidateScore box cX cY p)))"
proof (intro conjI impI allI)
  assume "0 < w1 \<and> 0 < h1 \<and> 0 < w2 \<and> 0 < h2 \<and> bbox q = (x2, y2, w2, h2)"
  then show "candidateScore (x1, y1, w1, h1) cX cY q = Fin (spec_score (x1, y1, w1, h1) cX cY q)"
    by (intro candidateScore_spec) auto
next
  show "findClosestPerson people box cX cY =
       findClosestPerson
         (filter (\<lambda>q. calculateDistance cX cY (centerX q) (centerY q) \<le> TRACKING_THRESHOLD) people)
         box cX cY"
    by (rule findClosestPerson_filter)
next
  fix p assume "findClosestPerson people box cX cY = Some p"
  note r = findClosestPerson_Some[OF this]
  show "p \<in> set people" by (rule r)
  show "calculateDistance cX cY (centerX p) (centerY p) \<le> TRACKING_THRESHOLD" by (rule r)
  show "js_gt (candidateScore box cX cY p) (Fin 0.3)" by (rule r)
  show "\<forall>q \<in> set people.
               calculateDistance cX cY (centerX q) (centerY q) \<le> TRACKING_THRESHOLD
               \<longrightarrow> \<not> js_gt (candidateScore box cX cY q) (candidateScore box cX cY p)" by (rule r)
qed

text \<open>A detection 80 pixels below one person and 500 pixels beside another.\<close>

theorem candidateScore_refines_specification_witness:
  "candidateScore (100, 95, 50, 50) 125 120
      \<lparr>pid = ''a'', bbox = (100, 15, 50, 50), centerX = 125, centerY = 40, previousY = 40,
       lastSeen = 900, crossed = False, direction = None, framesSinceCrossing = 0\<rparr>
     = Fin (11 / 25)
   \<and> findClosestPerson
       [\<lparr>pid = ''b'', bbox = (600, 95, 50, 50), centerX = 625, centerY = 120, previousY = 120,
         lastSeen = 900, crossed = False, direction = None, framesSinceCrossing = 0\<rparr>,
        \<lparr>pid = ''a'', bbox = (100, 15, 50, 50), centerX = 125, centerY = 40, previousY = 40,
         lastSeen = 900, crossed = False, direction = None, framesSinceCrossing = 0\<rparr>]
       (100, 95, 50, 50) 125 120
     = Some \<lparr>pid = ''a'', bbox = (100, 15, 50, 50), centerX = 125, centerY = 40, previousY = 40,
         lastSeen = 900, crossed = False, direction = None, framesSinceCrossing = 0\<rparr>"
proof -
  let ?a = "\<lparr>pid = ''a'', bbox = (100, 15, 50, 50), centerX = 125, centerY = 40, previousY = 40,
       lastSeen = 900, crossed = False, direction = None, framesSinceCrossing = 0\<rparr>"
  let ?b = "\<lparr>pid = ''b'', bbox = (600, 95, 50, 50), centerX = 625, centerY = 120, previousY = 120,
         lastSeen = 900, crossed = False, direction = None, framesSinceCrossing = 0\<rparr>"
  note t = candidateScore_refines_specification[of 50 50 50 50 ?a 100 15 100 95 125 120 "[?b, ?a]"
      "(100, 95, 50, 50)"]
  have s: "spec_score (100, 95, 50, 50) 125 120 ?a = 11 / 25"
    unfolding spec_score_def calculateDistance_def[symmetric]
    by (simp add: spec_iou_def calculateDistance_vertical constants)
  have c: "candidateScore (100, 95, 50, 50) 125 120 ?a = Fin (11 / 25)"
    using t s by simp
  have "findClosestPerson [?b, ?a] (100, 95, 50, 50) 125 120
      = findClosestPerson [?a] (100, 95, 50, 50) 125 120"
    using t by (simp add: calculateDistance_vertical calculateDistance_horizontal constants)
  also have "\<dots> = Some ?a"
    by (simp add: findClosestPerson_def closestStep_def c calculateDistance_vertical constants)
  finally show ?thesis using c by simp
qed

section \<open>The loop over the detections\<close>

subsection \<open>The unclaimed people along the loop\<close>

lemma filter_replace_claimed:
  assumes "pid v = k"
  shows "filter (\<lambda>q. pid q \<notin> insert k m \<and> R q) (map (\<lambda>q. if pid q = k then v else q) ps)
       = filter (\<lambda>q. pid q \<noteq> k \<and> pid q \<notin> m \<and> R q) ps"
  using assms by (induction ps) auto

lemma filter_mapSet_claimed:
  assumes "pid v = k"
  shows "filter (\<lambda>q. pid q \<notin> insert k m \<and> R q) (mapSet k v ps)
       = filter (\<lambda>q. pid q \<noteq> k \<and> pid q \<notin> m \<and> R q) ps"
proof (cases "k \<in> pid ` set ps")
  case True
  then show ?thesis using filter_replace_claimed[OF assms, of m R ps] by (simp add: mapSet_def)
next
  case False
  then have "filter (\<lambda>q. pid q \<notin> insert k m \<and> R q) ps
     = filter (\<lambda>q. pid q \<noteq> k \<and> pid q \<notin> m \<and> R q) ps"
    by (intro filter_cong) auto
  with False assms show ?thesis by (simp add: mapSet_def)
qed

text \<open>One detection removes at most one identifier from the unclaimed people.\<close>

lemma unmatchedOf_step:
  "unmatchedOf (processDetection w l st det) = unmatchedOf st \<or>
   (\<exists>k. matchedPeople (processDetection w l st det) = insert k (matchedPeople st)
      \<and> unmatchedOf (processDetection w l st det) = filter (\<lambda>q. pid q \<noteq> k) (unmatchedOf st))"
proof -
  obtain x y wd ht where b: "d_bbox det = (x, y, wd, ht)" by (cases "d_bbox det") auto
  show ?thesis
  proof (cases "findClosestPerson (trackedPeople st) (x, y, wd, ht) (x + wd / 2) (y + ht / 2)")
    case None
    have "unmatchedOf (processDetection w l st det) =
      filter (\<lambda>q. pid q \<noteq> newId (dateNow w (clockReads st)) (randomSuffix w (clockReads st)))
        (unmatchedOf st)"
      unfolding processDetection_new[OF b None] unmatchedOf_def
      using filter_mapSet_claimed[where R = "\<lambda>_. True" and m = "matchedPeople st"
          and ps = "trackedPeople st"
          and k = "newId (dateNow w (clockReads st)) (randomSuffix w (clockReads st))"]
      by (simp add: conj_commute)
    then show ?thesis by (auto simp: processDetection_new[OF b None])
  next
    case (Some p)
    show ?thesis
    proof (cases "pid p \<in> matchedPeople st")
      case True
      show ?thesis by (simp add: processDetection_claimed[OF b Some True])
    next
      case False
      obtain p' dIn dOut where u: "updateExistingPerson l (x, y, wd, ht) (x + wd / 2) (y + ht / 2)
          (dateNow w (clockReads st)) p = (p', dIn, dOut)"
        by (cases "updateExistingPerson l (x, y, wd, ht) (x + wd / 2) (y + ht / 2)
          (dateNow w (clockReads st)) p") auto
      have pp: "pid p' = pid p" using updateExistingPerson_pid[of l "(x, y, wd, ht)" "x + wd / 2"
          "y + ht / 2" "dateNow w (clockReads st)" p] u by simp
      have "unmatchedOf (processDetection w l st det) = filter (\<lambda>q. pid q \<noteq> pid p) (unmatchedOf st)"
        unfolding processDetection_matched[OF b Some False u] unmatchedOf_def
        using filter_replace_claimed[OF pp, where R = "\<lambda>_. True" and m = "matchedPeople st"
            and ps = "trackedPeople st"]
        by (simp add: conj_commute)
      then show ?thesis by (auto simp: processDetection_matched[OF b Some False u])
    qed
  qed
qed

lemma matchedPeople_step: "matchedPeople st \<subseteq> matchedPeople (processDetection w l st det)"
proof -
  obtain x y wd ht where b: "d_bbox det = (x, y, wd, ht)" by (cases "d_bbox det") auto
  show ?thesis
  proof (cases "findClosestPerson (trackedPeople st) (x, y, wd, ht) (x + wd / 2) (y + ht / 2)")
    case None
    show ?thesis by (auto simp: processDetection_new[OF b None])
  next
    case (Some p)
    show ?thesis
    proof (cases "pid p \<in> matchedPeople st")
      case True
      show ?thesis by (simp add: processDetection_claimed[OF b Some True])
    next
      case False
      obtain p' dIn dOut where u: "updateExistingPerson l (x, y, wd, ht) (x + wd / 2) (y + ht / 2)
          (dateNow w (clockReads st)) p = (p', dIn, dOut)"
        by (cases "updateExistingPerson l (x, y, wd, ht) (x + wd / 2) (y + ht / 2)
          (dateNow w (clockReads st)) p") auto
      show ?thesis by (auto simp: processDetection_matched[OF b Some False u])
    qed
  qed
qed

text \<open>The unclaimed people are people of the starting registry, untouched and in order.\<close>

lemma unmatchedOf_loop:
  "unmatchedOf (foldl (processDetection w l) st ds)
     = filter (\<lambda>q. pid q \<notin> matchedPeople (foldl (processDetection w l) st ds)) (unmatchedOf st)"
proof (induction ds rule: rev_induct)
  case Nil
  show ?case by (simp add: unmatchedOf_def)
next
  case (snoc d ds)
  let ?s = "foldl (processDetection w l) st ds"
  have m: "matchedPeople ?s \<subseteq> matchedPeople (processDetection w l ?s d)"
    by (rule matchedPeople_step)
  from unmatchedOf_step[of w l ?s d] show ?case
  proof
    assume a: "unmatchedOf (processDetection w l ?s d) = unmatchedOf ?s"
    have "filter (\<lambda>q. pid q \<notin> matchedPeople (processDetection w l ?s d)) (unmatchedOf ?s)
       = unmatchedOf (processDetection w l ?s d)"
      unfolding a[symmetric] by (simp add: unmatchedOf_def)
    then have "unmatchedOf (processDetection w l ?s d)
       = filter (\<lambda>q. pid q \<notin> matchedPeople (processDetection w l ?s d))
           (filter (\<lambda>q. pid q \<notin> matchedPeople ?s) (unmatchedOf st))"
      using snoc.IH a by simp
    also have "\<dots> = filter (\<lambda>q. pid q \<notin> matchedPeople (processDetection w l ?s d)) (unmatchedOf st)"
      using m by (auto intro: filter_cong)
    finally show ?thesis by simp
  next
    assume "\<exists>k. matchedPeople (processDetection w l ?s d) = insert k (matchedPeople ?s)
      \<and> unmatchedOf (processDetection w l ?s d) = filter (\<lambda>q. pid q \<noteq> k) (unmatchedOf ?s)"
    then obtain k where k: "matchedPeople (processDetection w l ?s d) = insert k (matchedPeople ?s)"
      "unmatchedOf (processDetection w l ?s d) = filter (\<lambda>q. pid q \<noteq> k) (unmatchedOf ?s)"
      by blast
    show ?thesis
      unfolding foldl_append foldl_Cons foldl_Nil k(2) snoc.IH k(1)
      by (auto intro: filter_cong)
  qed
qed

text \<open>When a detection counts something: the person, and what made it count.\<close>

lemma processDetection_event:
  assumes "d_bbox det = (x, y, wd, ht)"
    and "countIn (processDetection w l st det) \<noteq> countIn st
         \<or> countOut (processDetection w l st det) \<noteq> countOut st"
  obtains p where
    "findClosestPerson (trackedPeople st) (x, y, wd, ht) (x + wd / 2) (y + ht / 2) = Some p"
    "pid p \<notin> matchedPeople st" "\<not> crossed p" "p \<in> set (unmatchedOf st)"
    "MIN_DISTANCE_FOR_CROSSING < \<bar>(y + ht / 2) - centerY p\<bar>"
    "\<bar>(x + wd / 2) - centerX p\<bar> * 0.1 < \<bar>(y + ht / 2) - centerY p\<bar>"
    "(centerY p < l \<and> l < y + ht / 2) \<or> (l < centerY p \<and> y + ht / 2 < l)"
proof (cases "findClosestPerson (trackedPeople st) (x, y, wd, ht) (x + wd / 2) (y + ht / 2)")
  case None
  with assms show ?thesis by (simp add: processDetection_new[OF assms(1) None])
next
  case (Some p)
  show ?thesis
  proof (cases "pid p \<in> matchedPeople st")
    case True
    with assms show ?thesis by (simp add: processDetection_claimed[OF assms(1) Some True])
  next
    case False
    have pin: "p \<in> set (unmatchedOf st)"
      using findClosestPerson_Some(1)[OF Some] False by (simp add: unmatchedOf_def)
    show ?thesis
    proof (cases rule: updateExistingPerson_cases[of l "(x, y, wd, ht)" "x + wd / 2" "y + ht / 2"
              "dateNow w (clockReads st)" p])
      case none
      with assms show ?thesis by (simp add: processDetection_matched[OF assms(1) Some False])
    next
      case down
      then show ?thesis using that[OF Some False _ pin] by blast
    next
      case up
      then show ?thesis using that[OF Some False _ pin] by blast
    qed
  qed
qed

lemma events_step:
  "countIn (processDetection w l st det) + countOut (processDetection w l st det)
     + length (filter (\<lambda>q. \<not> crossed q) (unmatchedOf (processDetection w l st det)))
   \<le> countIn st + countOut st + length (filter (\<lambda>q. \<not> crossed q) (unmatchedOf st))"
proof -
  obtain x y wd ht where b: "d_bbox det = (x, y, wd, ht)" by (cases "d_bbox det") auto
  let ?st' = "processDetection w l st det"
  have le: "length (filter (\<lambda>q. \<not> crossed q) (unmatchedOf ?st'))
      \<le> length (filter (\<lambda>q. \<not> crossed q) (unmatchedOf st))"
  proof -
    from unmatchedOf_step[of w l st det] show ?thesis
    proof
      assume "unmatchedOf ?st' = unmatchedOf st" then show ?thesis by simp
    next
      assume "\<exists>k. matchedPeople ?st' = insert k (matchedPeople st)
        \<and> unmatchedOf ?st' = filter (\<lambda>q. pid q \<noteq> k) (unmatchedOf st)"
      then obtain k where "unmatchedOf ?st' = filter (\<lambda>q. pid q \<noteq> k) (unmatchedOf st)" by blast
      then have e: "filter (\<lambda>q. \<not> crossed q) (unmatchedOf ?st')
         = filter (\<lambda>q. pid q \<noteq> k) (filter (\<lambda>q. \<not> crossed q) (unmatchedOf st))"
        by (simp add: conj_commute)
      show ?thesis unfolding e by (rule length_filter_le)
    qed
  qed
  show ?thesis
  proof (cases "countIn ?st' \<noteq> countIn st \<or> countOut ?st' \<noteq> countOut st")
    case False
    with le show ?thesis by simp
  next
    case True
    from processDetection_event[OF b True] obtain p where
      p: "findClosestPerson (trackedPeople st) (x, y, wd, ht) (x + wd / 2) (y + ht / 2) = Some p"
        "pid p \<notin> matchedPeople st" "\<not> crossed p" "p \<in> set (unmatchedOf st)"
      by metis
    obtain p' dIn dOut where u: "updateExistingPerson l (x, y, wd, ht) (x + wd / 2) (y + ht / 2)
          (dateNow w (clockReads st)) p = (p', dIn, dOut)"
      by (cases "updateExistingPerson l (x, y, wd, ht) (x + wd / 2) (y + ht / 2)
          (dateNow w (clockReads st)) p") auto
    have pp: "pid p' = pid p" using updateExistingPerson_pid[of l "(x, y, wd, ht)" "x + wd / 2"
          "y + ht / 2" "dateNow w (clockReads st)" p] u by simp
    have un: "unmatchedOf ?st' = filter (\<lambda>q. pid q \<noteq> pid p) (unmatchedOf st)"
      unfolding processDetection_matched[OF b p(1,2) u] unmatchedOf_def
      using filter_replace_claimed[OF pp, where R = "\<lambda>_. True" and m = "matchedPeople st"
            and ps = "trackedPeople st"]
      by (simp add: conj_commute)
    have e: "filter (\<lambda>q. \<not> crossed q) (unmatchedOf ?st')
         = filter (\<lambda>q. pid q \<noteq> pid p) (filter (\<lambda>q. \<not> crossed q) (unmatchedOf st))"
      unfolding un by (simp add: conj_commute)
    have pin: "p \<in> set (filter (\<lambda>q. \<not> crossed q) (unmatchedOf st))" using p by simp
    have lt: "length (filter (\<lambda>q. \<not> crossed q) (unmatchedOf ?st'))
        < length (filter (\<lambda>q. \<not> crossed q) (unmatchedOf st))"
      unfolding e by (rule length_filter_less[OF pin]) simp
    from processDetection_counts[of w l st det] lt show ?thesis by auto
  qed
qed

lemma events_loop:
  "countIn (foldl (processDetection w l) st ds) + countOut (foldl (processDetection w l) st ds)
     + length (filter (\<lambda>q. \<not> crossed q) (unmatchedOf (foldl (processDetection w l) st ds)))
   \<le> countIn st + countOut st + length (filter (\<lambda>q. \<not> crossed q) (unmatchedOf st))"
proof (induction ds rule: rev_induct)
  case Nil
  show ?case by simp
next
  case (snoc d ds)
  show ?case
    using events_step[of w l "foldl (processDetection w l) st ds" d] snoc.IH by simp
qed

text \<open>The events of a frame are bounded by the people that are out of cooldown.\<close>

lemma associateDetections_events:
  "countIn (associateDetections w result frameHeight tr)
     + countOut (associateDetections w result frameHeight tr)
   \<le> length (filter (\<lambda>q. \<not> crossed q)
        (cooldownPass (cleanupTrackedPeople (dateNow w (clockReads tr + 1)) (trackedPeople tr))))"
proof -
  let ?c = "cooldownPass (cleanupTrackedPeople (dateNow w (clockReads tr + 1)) (trackedPeople tr))"
  let ?st0 = "\<lparr>trackedPeople = ?c, clockReads = clockReads tr + 1 + 1, matchedPeople = {},
            countIn = 0, countOut = 0\<rparr>"
  have u0: "unmatchedOf ?st0 = ?c" by (simp add: unmatchedOf_def)
  have a: "associateDetections w result frameHeight tr
     = foldl (processDetection w (frameHeight * CROSSING_LINE_POSITION)) ?st0
         (sort_key (\<lambda>d. - d_score d) result)"
    by (simp add: associateDetections_def Let_def)
  show ?thesis
    unfolding a
    using events_loop[of w "frameHeight * CROSSING_LINE_POSITION" ?st0
        "sort_key (\<lambda>d. - d_score d) result"]
    unfolding u0 by simp
qed

lemma associateDetections_events_le_registry:
  "countIn (associateDetections w result frameHeight tr)
     + countOut (associateDetections w result frameHeight tr)
   \<le> length (trackedPeople tr)"
proof -
  have "length (filter (\<lambda>q. \<not> crossed q)
        (cooldownPass (cleanupTrackedPeople (dateNow w (clockReads tr + 1)) (trackedPeople tr))))
     \<le> length (cooldownPass (cleanupTrackedPeople (dateNow w (clockReads tr + 1)) (trackedPeople tr)))"
    by (rule length_filter_le)
  also have "\<dots> \<le> length (trackedPeople tr)"
    by (simp add: cooldownPass_def cleanupTrackedPeople_def)
  finally show ?thesis using associateDetections_events[of w result frameHeight tr] by linarith
qed

section \<open>Direction of a crossing\<close>

lemma mapSet_mem: "v \<in> set (mapSet k v ps)"
  by (auto simp: mapSet_def)

text \<open>
  C3. With frame height 200 the line is at \<open>y = 100\<close>. A detection that claims a person
  out of cooldown whose centre was at \<open>y = 40\<close> and is now at \<open>y = 120\<close> adds one to
  \<open>countIn\<close> and nothing to \<open>countOut\<close>; the move from \<open>120\<close> to \<open>40\<close> adds one
  to \<open>countOut\<close> and nothing to \<open>countIn\<close>. Any detection adds nothing, one entry or one
  exit, never both. A detection that counts claims a person that was unclaimed, claims are
  never withdrawn during the frame, and so the events of a frame are at most as many as the
  people in the registry.
\<close>

theorem crossing_direction:
  "(d_bbox det = (x, y, wd, ht)
      \<and> findClosestPerson (trackedPeople st) (x, y, wd, ht) (x + wd / 2) (y + ht / 2) = Some p
      \<and> pid p \<notin> matchedPeople st \<and> \<not> crossed p \<longrightarrow>
      (centerY p = 40 \<and> y + ht / 2 = 120 \<longrightarrow>
         countIn (processDetection w (200 * CROSSING_LINE_POSITION) st det) = countIn st + 1
         \<and> countOut (processDetection w (200 * CROSSING_LINE_POSITION) st det) = countOut st)
      \<and> (centerY p = 120 \<and> y + ht / 2 = 40 \<longrightarrow>
         countIn (processDetection w (200 * CROSSING_LINE_POSITION) st det) = countIn st
         \<and> countOut (processDetection w (200 * CROSSING_LINE_POSITION) st det) = countOut st + 1))
   \<and> ((countIn (processDetection w l st det) = countIn st \<and>
        countOut (processDetection w l st det) = countOut st) \<or>
       (countIn (processDetection w l st det) = countIn st + 1 \<and>
        countOut (processDetection w l st det) = countOut st) \<or>
       (countIn (processDetection w l st det) = countIn st \<and>
        countOut (processDetection w l st det) = countOut st + 1))
   \<and> (countIn (processDetection w l st det) + countOut (processDetection w l st det)
         \<noteq> countIn st + countOut st \<longrightarrow>
       (\<exists>q \<in> set (trackedPeople st).
          pid q \<notin> matchedPeople st \<and> pid q \<in> matchedPeople (processDetection w l st det)))
   \<and> matchedPeople st \<subseteq> matchedPeople (processDetection w l st det)
   \<and> r_countIn (fst (detectPeopleWithCrossing w predictions frameHeight tr))
       + r_countOut (fst (detectPeopleWithCrossing w predictions frameHeight tr))
       \<le> length (trackedPeople tr)"
proof (intro conjI)
  show "d_bbox det = (x, y, wd, ht)
      \<and> findClosestPerson (trackedPeople st) (x, y, wd, ht) (x + wd / 2) (y + ht / 2) = Some p
      \<and> pid p \<notin> matchedPeople st \<and> \<not> crossed p \<longrightarrow>
      (centerY p = 40 \<and> y + ht / 2 = 120 \<longrightarrow>
         countIn (processDetection w (200 * CROSSING_LINE_POSITION) st det) = countIn st + 1
         \<and> countOut (processDetection w (200 * CROSSING_LINE_POSITION) st det) = countOut st)
      \<and> (centerY p = 120 \<and> y + ht / 2 = 40 \<longrightarrow>
         countIn (processDetection w (200 * CROSSING_LINE_POSITION) st det) = countIn st
         \<and> countOut (processDetection w (200 * CROSSING_LINE_POSITION) st det) = countOut st + 1)"
  proof (intro impI, elim conjE)
    assume b: "d_bbox det = (x, y, wd, ht)"
      and f: "findClosestPerson (trackedPeople st) (x, y, wd, ht) (x + wd / 2) (y + ht / 2) = Some p"
      and m: "pid p \<notin> matchedPeople st" and c: "\<not> crossed p"
    have "\<bar>centerX p - (x + wd / 2)\<bar> \<le> calculateDistance (x + wd / 2) (y + ht / 2) (centerX p) (centerY p)"
      by (rule abs_le_calculateDistance)
    also have "\<dots> \<le> TRACKING_THRESHOLD" by (rule findClosestPerson_Some(2)[OF f])
    finally have h: "\<bar>(x + wd / 2) - centerX p\<bar> \<le> 400" by (simp add: constants abs_minus_commute)
    show "(centerY p = 40 \<and> y + ht / 2 = 120 \<longrightarrow>
         countIn (processDetection w (200 * CROSSING_LINE_POSITION) st det) = countIn st + 1
         \<and> countOut (processDetection w (200 * CROSSING_LINE_POSITION) st det) = countOut st)
      \<and> (centerY p = 120 \<and> y + ht / 2 = 40 \<longrightarrow>
         countIn (processDetection w (200 * CROSSING_LINE_POSITION) st det) = countIn st
         \<and> countOut (processDetection w (200 * CROSSING_LINE_POSITION) st det) = countOut st + 1)"
    proof (intro conjI impI; elim conjE)
      assume a: "centerY p = 40" "y + ht / 2 = 120"
      have u: "updateExistingPerson (200 * CROSSING_LINE_POSITION) (x, y, wd, ht) (x + wd / 2)
          (y + ht / 2) (dateNow w (clockReads st)) p =
          (p\<lparr>bbox := (x, y, wd, ht), centerX := x + wd / 2, previousY := centerY p,
              centerY := y + ht / 2, lastSeen := dateNow w (clockReads st),
              direction := Some In, crossed := True, framesSinceCrossing := 0\<rparr>, 1, 0)"
        using c a h by (intro updateExistingPerson_down) (simp_all add: constants)
      show "countIn (processDetection w (200 * CROSSING_LINE_POSITION) st det) = countIn st + 1"
        "countOut (processDetection w (200 * CROSSING_LINE_POSITION) st det) = countOut st"
        by (simp_all add: processDetection_matched[OF b f m u])
    next
      assume a: "centerY p = 120" "y + ht / 2 = 40"
      have u: "updateExistingPerson (200 * CROSSING_LINE_POSITION) (x, y, wd, ht) (x + wd / 2)
          (y + ht / 2) (dateNow w (clockReads st)) p =
          (p\<lparr>bbox := (x, y, wd, ht), centerX := x + wd / 2, previousY := centerY p,
              centerY := y + ht / 2, lastSeen := dateNow w (clockReads st),
              direction := Some Out, crossed := True, framesSinceCrossing := 0\<rparr>, 0, 1)"
        using c a h by (intro updateExistingPerson_up) (simp_all add: constants)
      show "countIn (processDetection w (200 * CROSSING_LINE_POSITION) st det) = countIn st"
        "countOut (processDetection w (200 * CROSSING_LINE_POSITION) st det) = countOut st + 1"
        by (simp_all add: processDetection_matched[OF b f m u])
    qed
  qed
next
  show "(countIn (processDetection w l st det) = countIn st \<and>
        countOut (processDetection w l st det) = countOut st) \<or>
       (countIn (processDetection w l st det) = countIn st + 1 \<and>
        countOut (processDetection w l st det) = countOut st) \<or>
       (countIn (processDetection w l st det) = countIn st \<and>
        countOut (processDetection w l st det) = countOut st + 1)"
    by (rule processDetection_counts)
next
  show "countIn (processDetection w l st det) + countOut (processDetection w l st det)
         \<noteq> countIn st + countOut st \<longrightarrow>
       (\<exists>q \<in> set (trackedPeople st).
          pid q \<notin> matchedPeople st \<and> pid q \<in> matchedPeople (processDetection w l st det))"
  proof
    assume ne: "countIn (processDetection w l st det) + countOut (processDetection w l st det)
         \<noteq> countIn st + countOut st"
    obtain x' y' wd' ht' where b: "d_bbox det = (x', y', wd', ht')" by (cases "d_bbox det") auto
    from ne have "countIn (processDetection w l st det) \<noteq> countIn st
         \<or> countOut (processDetection w l st det) \<noteq> countOut st" by auto
    from processDetection_event[OF b this] obtain q where
      q: "findClosestPerson (trackedPeople st) (x', y', wd', ht') (x' + wd' / 2) (y' + ht' / 2) = Some q"
        "pid q \<notin> matchedPeople st"
      by metis
    obtain q' dIn dOut where u: "updateExistingPerson l (x', y', wd', ht') (x' + wd' / 2)
          (y' + ht' / 2) (dateNow w (clockReads st)) q = (q', dIn, dOut)"
      by (cases "updateExistingPerson l (x', y', wd', ht') (x' + wd' / 2)
          (y' + ht' / 2) (dateNow w (clockReads st)) q") auto
    have "pid q \<in> matchedPeople (processDetection w l st det)"
      by (simp add: processDetection_matched[OF b q u])
    with q findClosestPerson_Some(1)[OF q(1)] show "\<exists>q \<in> set (trackedPeople st).
          pid q \<notin> matchedPeople st \<and> pid q \<in> matchedPeople (processDetection w l st det)"
      by blast
  qed
next
  show "matchedPeople st \<subseteq> matchedPeople (processDetection w l st det)"
    by (rule matchedPeople_step)
next
  show "r_countIn (fst (detectPeopleWithCrossing w predictions frameHeight tr))
       + r_countOut (fst (detectPeopleWithCrossing w predictions frameHeight tr))
       \<le> length (trackedPeople tr)"
    using associateDetections_events_le_registry[of w "detectPeople predictions" frameHeight tr]
    by (simp add: detectPeopleWithCrossing_def Let_def)
qed

text \<open>The two moves of the claim on boxes of 50 by 50 pixels.\<close>

theorem crossing_direction_witness:
  "countIn (processDetection \<lparr>dateNow = (\<lambda>k. 1000), randomSuffix = (\<lambda>k. ''r'')\<rparr>
      (200 * CROSSING_LINE_POSITION)
      \<lparr>trackedPeople = [\<lparr>pid = ''a'', bbox = (100, 15, 50, 50), centerX = 125, centerY = 40,
          previousY = 40, lastSeen = 900, crossed = False, direction = None,
          framesSinceCrossing = 0\<rparr>],
       clockReads = 0, matchedPeople = {}, countIn = 0, countOut = 0\<rparr>
      \<lparr>d_bbox = (100, 95, 50, 50), d_class = ''person'', d_score = 0.9\<rparr>) = 1
   \<and> countOut (processDetection \<lparr>dateNow = (\<lambda>k. 1000), randomSuffix = (\<lambda>k. ''r'')\<rparr>
      (200 * CROSSING_LINE_POSITION)
      \<lparr>trackedPeople = [\<lparr>pid = ''a'', bbox = (100, 15, 50, 50), centerX = 125, centerY = 40,
          previousY = 40, lastSeen = 900, crossed = False, direction = None,
          framesSinceCrossing = 0\<rparr>],
       clockReads = 0, matchedPeople = {}, countIn = 0, countOut = 0\<rparr>
      \<lparr>d_bbox = (100, 95, 50, 50), d_class = ''person'', d_score = 0.9\<rparr>) = 0
   \<and> countIn (processDetection \<lparr>dateNow = (\<lambda>k. 1000), randomSuffix = (\<lambda>k. ''r'')\<rparr>
      (200 * CROSSING_LINE_POSITION)
      \<lparr>trackedPeople = [\<lparr>pid = ''b'', bbox = (100, 95, 50, 50), centerX = 125, centerY = 120,
          previousY = 120, lastSeen = 900, crossed = False, direction = None,
          framesSinceCrossing = 0\<rparr>],
       clockReads = 0, matchedPeople = {}, countIn = 0, countOut = 0\<rparr>
      \<lparr>d_bbox = (100, 15, 50, 50), d_class = ''person'', d_score = 0.9\<rparr>) = 0
   \<and> countOut (processDetection \<lparr>dateNow = (\<lambda>k. 1000), randomSuffix = (\<lambda>k. ''r'')\<rparr>
      (200 * CROSSING_LINE_POSITION)
      \<lparr>trackedPeople = [\<lparr>pid = ''b'', bbox = (100, 95, 50, 50), centerX = 125, centerY = 120,
          previousY = 120, lastSeen = 900, crossed = False, direction = None,
          framesSinceCrossing = 0\<rparr>],
       clockReads = 0, matchedPeople = {}, countIn = 0, countOut = 0\<rparr>
      \<lparr>d_bbox = (100, 15, 50, 50), d_class = ''person'', d_score = 0.9\<rparr>) = 1"
proof -
  let ?w = "\<lparr>dateNow = (\<lambda>k. 1000), randomSuffix = (\<lambda>k. ''r'')\<rparr>"
  let ?a = "\<lparr>pid = ''a'', bbox = (100, 15, 50, 50), centerX = 125, centerY = 40,
          previousY = 40, lastSeen = 900, crossed = False, direction = None,
          framesSinceCrossing = 0\<rparr>"
  let ?b = "\<lparr>pid = ''b'', bbox = (100, 95, 50, 50), centerX = 125, centerY = 120,
          previousY = 120, lastSeen = 900, crossed = False, direction = None,
          framesSinceCrossing = 0\<rparr>"
  let ?sa = "\<lparr>trackedPeople = [?a], clockReads = 0, matchedPeople = {}, countIn = 0, countOut = 0\<rparr>"
  let ?sb = "\<lparr>trackedPeople = [?b], clockReads = 0, matchedPeople = {}, countIn = 0, countOut = 0\<rparr>"
  let ?da = "\<lparr>d_bbox = (100, 95, 50, 50), d_class = ''person'', d_score = 0.9\<rparr>"
  let ?db = "\<lparr>d_bbox = (100, 15, 50, 50), d_class = ''person'', d_score = 0.9\<rparr>"
  have fa: "findClosestPerson (trackedPeople ?sa) (100, 95, 50, 50) (100 + 50 / 2) (95 + 50 / 2) = Some ?a"
    by (simp add: eval_closest)
  have fb: "findClosestPerson (trackedPeople ?sb) (100, 15, 50, 50) (100 + 50 / 2) (15 + 50 / 2) = Some ?b"
    by (simp add: eval_closest)
  show ?thesis
    using crossing_direction[of ?da 100 95 50 50 ?sa ?a ?w]
      crossing_direction[of ?db 100 15 50 50 ?sb ?b ?w]
      fa fb
    by simp
qed

section \<open>New people do not count\<close>

text \<open>
  C10. At any point of the loop of a frame, a detection that changes a counter has claimed
  a person that is in the registry as it was before the loop and that nothing has touched
  since. A detection that finds no person creates one with \<open>previousY = centerY\<close>, claimed
  at once, and counts nothing; every person created or updated during the frame is claimed,
  so that no later detection of the frame evaluates it.
\<close>

theorem events_from_existing_tracks:
  "matchedPeople st0 = {} \<and> d_bbox det = (x, y, wd, ht) \<longrightarrow>
   (let st = foldl (processDetection w l) st0 ds;
        st' = processDetection w l st det
    in (countIn st' \<noteq> countIn st \<or> countOut st' \<noteq> countOut st \<longrightarrow>
          (\<exists>p \<in> set (trackedPeople st0).
             findClosestPerson (trackedPeople st) (x, y, wd, ht) (x + wd / 2) (y + ht / 2) = Some p
             \<and> pid p \<notin> matchedPeople st))
     \<and> (findClosestPerson (trackedPeople st) (x, y, wd, ht) (x + wd / 2) (y + ht / 2) = None \<longrightarrow>
          countIn st' = countIn st \<and> countOut st' = countOut st
          \<and> (\<exists>q \<in> set (trackedPeople st').
                pid q = newId (dateNow w (clockReads st)) (randomSuffix w (clockReads st))
                \<and> previousY q = centerY q \<and> centerY q = y + ht / 2 \<and> \<not> crossed q
                \<and> pid q \<in> matchedPeople st'))
     \<and> (\<forall>q \<in> set (trackedPeople st). q \<notin> set (trackedPeople st0) \<longrightarrow> pid q \<in> matchedPeople st))"
proof (intro impI, elim conjE)
  assume m0: "matchedPeople st0 = {}" and b: "d_bbox det = (x, y, wd, ht)"
  let ?st = "foldl (processDetection w l) st0 ds"
  let ?st' = "processDetection w l ?st det"
  have u0: "unmatchedOf st0 = trackedPeople st0" using m0 by (simp add: unmatchedOf_def)
  have sub: "set (unmatchedOf ?st) \<subseteq> set (trackedPeople st0)"
    using unmatchedOf_loop[of w l st0 ds] u0 by auto
  have 1: "countIn ?st' \<noteq> countIn ?st \<or> countOut ?st' \<noteq> countOut ?st \<longrightarrow>
          (\<exists>p \<in> set (trackedPeople st0).
             findClosestPerson (trackedPeople ?st) (x, y, wd, ht) (x + wd / 2) (y + ht / 2) = Some p
             \<and> pid p \<notin> matchedPeople ?st)"
  proof
    assume "countIn ?st' \<noteq> countIn ?st \<or> countOut ?st' \<noteq> countOut ?st"
    from processDetection_event[OF b this] obtain p where
      "findClosestPerson (trackedPeople ?st) (x, y, wd, ht) (x + wd / 2) (y + ht / 2) = Some p"
      "pid p \<notin> matchedPeople ?st" "p \<in> set (unmatchedOf ?st)"
      by metis
    with sub show "\<exists>p \<in> set (trackedPeople st0).
             findClosestPerson (trackedPeople ?st) (x, y, wd, ht) (x + wd / 2) (y + ht / 2) = Some p
             \<and> pid p \<notin> matchedPeople ?st" by blast
  qed
  have 2: "findClosestPerson (trackedPeople ?st) (x, y, wd, ht) (x + wd / 2) (y + ht / 2) = None \<longrightarrow>
          countIn ?st' = countIn ?st \<and> countOut ?st' = countOut ?st
          \<and> (\<exists>q \<in> set (trackedPeople ?st').
                pid q = newId (dateNow w (clockReads ?st)) (randomSuffix w (clockReads ?st))
                \<and> previousY q = centerY q \<and> centerY q = y + ht / 2 \<and> \<not> crossed q
                \<and> pid q \<in> matchedPeople ?st')"
  proof
    assume n: "findClosestPerson (trackedPeople ?st) (x, y, wd, ht) (x + wd / 2) (y + ht / 2) = None"
    let ?k = "newId (dateNow w (clockReads ?st)) (randomSuffix w (clockReads ?st))"
    let ?new = "\<lparr>pid = ?k, bbox = (x, y, wd, ht), centerX = x + wd / 2, centerY = y + ht / 2,
             previousY = y + ht / 2, lastSeen = dateNow w (clockReads ?st + 1),
             crossed = False, direction = None, framesSinceCrossing = 0\<rparr>"
    have "?new \<in> set (trackedPeople ?st')"
      unfolding processDetection_new[OF b n] using mapSet_mem[of ?new ?k "trackedPeople ?st"] by simp
    moreover have "pid ?new \<in> matchedPeople ?st'"
      unfolding processDetection_new[OF b n] by simp
    ultimately have "\<exists>q \<in> set (trackedPeople ?st').
                pid q = ?k \<and> previousY q = centerY q \<and> centerY q = y + ht / 2 \<and> \<not> crossed q
                \<and> pid q \<in> matchedPeople ?st'"
      by (intro bexI[of _ ?new]) simp_all
    moreover have "countIn ?st' = countIn ?st \<and> countOut ?st' = countOut ?st"
      unfolding processDetection_new[OF b n] by simp
    ultimately show "countIn ?st' = countIn ?st \<and> countOut ?st' = countOut ?st
          \<and> (\<exists>q \<in> set (trackedPeople ?st').
                pid q = ?k \<and> previousY q = centerY q \<and> centerY q = y + ht / 2 \<and> \<not> crossed q
                \<and> pid q \<in> matchedPeople ?st')" by blast
  qed
  have 3: "\<forall>q \<in> set (trackedPeople ?st). q \<notin> set (trackedPeople st0) \<longrightarrow> pid q \<in> matchedPeople ?st"
  proof (intro ballI impI)
    fix q assume q: "q \<in> set (trackedPeople ?st)" "q \<notin> set (trackedPeople st0)"
    show "pid q \<in> matchedPeople ?st"
    proof (rule ccontr)
      assume "pid q \<notin> matchedPeople ?st"
      with q(1) have "q \<in> set (unmatchedOf ?st)" by (simp add: unmatchedOf_def)
      with sub q(2) show False by blast
    qed
  qed
  show "let st = foldl (processDetection w l) st0 ds;
        st' = processDetection w l st det
    in (countIn st' \<noteq> countIn st \<or> countOut st' \<noteq> countOut st \<longrightarrow>
          (\<exists>p \<in> set (trackedPeople st0).
             findClosestPerson (trackedPeople st) (x, y, wd, ht) (x + wd / 2) (y + ht / 2) = Some p
             \<and> pid p \<notin> matchedPeople st))
     \<and> (findClosestPerson (trackedPeople st) (x, y, wd, ht) (x + wd / 2) (y + ht / 2) = None \<longrightarrow>
          countIn st' = countIn st \<and> countOut st' = countOut st
          \<and> (\<exists>q \<in> set (trackedPeople st').
                pid q = newId (dateNow w (clockReads st)) (randomSuffix w (clockReads st))
                \<and> previousY q = centerY q \<and> centerY q = y + ht / 2 \<and> \<not> crossed q
                \<and> pid q \<in> matchedPeople st'))
     \<and> (\<forall>q \<in> set (trackedPeople st). q \<notin> set (trackedPeople st0) \<longrightarrow> pid q \<in> matchedPeople st)"
    unfolding Let_def using 1 2 3 by blast
qed

text \<open>
  An empty registry, a first detection at \<open>y = 40\<close> and a second one at \<open>y = 120\<close> that
  is closest to the person just created: nothing is counted.
\<close>

theorem events_from_existing_tracks_witness:
  "countIn (processDetection \<lparr>dateNow = (\<lambda>k. 1000), randomSuffix = (\<lambda>k. ''r'')\<rparr> 100
      (foldl (processDetection \<lparr>dateNow = (\<lambda>k. 1000), randomSuffix = (\<lambda>k. ''r'')\<rparr> 100)
         \<lparr>trackedPeople = [], clockReads = 0, matchedPeople = {}, countIn = 0, countOut = 0\<rparr>
         [\<lparr>d_bbox = (100, 15, 50, 50), d_class = ''person'', d_score = 0.9\<rparr>])
      \<lparr>d_bbox = (100, 95, 50, 50), d_class = ''person'', d_score = 0.8\<rparr>) = 0
   \<and> countOut (processDetection \<lparr>dateNow = (\<lambda>k. 1000), randomSuffix = (\<lambda>k. ''r'')\<rparr> 100
      (foldl (processDetection \<lparr>dateNow = (\<lambda>k. 1000), randomSuffix = (\<lambda>k. ''r'')\<rparr> 100)
         \<lparr>trackedPeople = [], clockReads = 0, matchedPeople = {}, countIn = 0, countOut = 0\<rparr>
         [\<lparr>d_bbox = (100, 15, 50, 50), d_class = ''person'', d_score = 0.9\<rparr>])
      \<lparr>d_bbox = (100, 95, 50, 50), d_class = ''person'', d_score = 0.8\<rparr>) = 0"
proof -
  let ?w = "\<lparr>dateNow = (\<lambda>k. 1000), randomSuffix = (\<lambda>k. ''r'')\<rparr>"
  let ?s0 = "\<lparr>trackedPeople = [], clockReads = 0, matchedPeople = {}, countIn = 0, countOut = 0\<rparr>"
  let ?d1 = "\<lparr>d_bbox = (100, 15, 50, 50), d_class = ''person'', d_score = 0.9\<rparr>"
  let ?d2 = "\<lparr>d_bbox = (100, 95, 50, 50), d_class = ''person'', d_score = 0.8\<rparr>"
  have n: "findClosestPerson (trackedPeople ?s0) (100, 15, 50, 50) (100 + 50 / 2) (15 + 50 / 2) = None"
    by (simp add: findClosestPerson_def)
  have c: "countIn (foldl (processDetection ?w 100) ?s0 [?d1]) = 0"
    "countOut (foldl (processDetection ?w 100) ?s0 [?d1]) = 0"
    using events_from_existing_tracks[of ?s0 ?d1 100 15 50 50 ?w 100 "[]"] n
    by (simp_all add: Let_def)
  show ?thesis
    using events_from_existing_tracks[of ?s0 ?d2 100 95 50 50 ?w 100 "[?d1]"] c
    by (simp add: Let_def)
qed

section \<open>The crossing state of the registry\<close>

subsection \<open>Properties of every person that a frame preserves\<close>

lemma set_replace_subset:
  "set (map (\<lambda>q. if pid q = k then v else q) ps) \<subseteq> insert v (set ps)"
  by auto

lemma set_mapSet_subset: "set (mapSet k v ps) \<subseteq> insert v (set ps)"
  by (auto simp: mapSet_def)

lemma processDetection_preserves:
  assumes upd: "\<And>p box cX cY now. P p \<Longrightarrow> P (fst (updateExistingPerson l box cX cY now p))"
    and new: "\<And>k box cX cY t.
        P \<lparr>pid = newId (dateNow w k) (randomSuffix w k), bbox = box, centerX = cX, centerY = cY,
           previousY = cY, lastSeen = t, crossed = False, direction = None,
           framesSinceCrossing = 0\<rparr>"
    and inv: "\<forall>q \<in> set (trackedPeople st). P q"
  shows "\<forall>q \<in> set (trackedPeople (processDetection w l st det)). P q"
proof -
  obtain x y wd ht where b: "d_bbox det = (x, y, wd, ht)" by (cases "d_bbox det") auto
  show ?thesis
  proof (cases "findClosestPerson (trackedPeople st) (x, y, wd, ht) (x + wd / 2) (y + ht / 2)")
    case None
    show ?thesis
      unfolding processDetection_new[OF b None]
      using inv new set_mapSet_subset by (auto dest!: subsetD[OF set_mapSet_subset])
  next
    case (Some p)
    show ?thesis
    proof (cases "pid p \<in> matchedPeople st")
      case True
      show ?thesis using inv by (simp add: processDetection_claimed[OF b Some True])
    next
      case False
      obtain p' dIn dOut where u: "updateExistingPerson l (x, y, wd, ht) (x + wd / 2) (y + ht / 2)
          (dateNow w (clockReads st)) p = (p', dIn, dOut)"
        by (cases "updateExistingPerson l (x, y, wd, ht) (x + wd / 2) (y + ht / 2)
          (dateNow w (clockReads st)) p") auto
      have "P p" using inv findClosestPerson_Some(1)[OF Some] by blast
      from upd[OF this, of "(x, y, wd, ht)" "x + wd / 2" "y + ht / 2" "dateNow w (clockReads st)"] u
      have "P p'" by simp
      then show ?thesis
        unfolding processDetection_matched[OF b Some False u] using inv by auto
    qed
  qed
qed

lemma loop_preserves:
  assumes upd: "\<And>p box cX cY now. P p \<Longrightarrow> P (fst (updateExistingPerson l box cX cY now p))"
    and new: "\<And>k box cX cY t.
        P \<lparr>pid = newId (dateNow w k) (randomSuffix w k), bbox = box, centerX = cX, centerY = cY,
           previousY = cY, lastSeen = t, crossed = False, direction = None,
           framesSinceCrossing = 0\<rparr>"
    and inv: "\<forall>q \<in> set (trackedPeople st). P q"
  shows "\<forall>q \<in> set (trackedPeople (foldl (processDetection w l) st ds)). P q"
proof (induction ds rule: rev_induct)
  case Nil
  show ?case using inv by simp
next
  case (snoc d ds)
  show ?case
    using processDetection_preserves[of P l w "foldl (processDetection w l) st ds" d, OF upd new snoc.IH]
    by simp
qed

lemma foldl_mapDelete:
  "foldl (\<lambda>people k. mapDelete k people) ps ks = filter (\<lambda>q. pid q \<notin> set ks) ps"
  unfolding mapDelete_def
proof (induction ks arbitrary: ps)
  case Nil
  show ?case by simp
next
  case (Cons k ks)
  show ?case by (simp add: Cons.IH conj_commute)
qed

lemma snd_runFrames_Cons:
  "snd (runFrames w ((predictions, frameHeight) # frames) tr)
     = snd (runFrames w frames (snd (detectPeopleWithCrossing w predictions frameHeight tr)))"
  by (simp split: prod.splits)

lemma removeUnmatched_tracked:
  "trackedPeople (removeUnmatched w st) =
     filter (\<lambda>q. pid q \<notin> set (fst (collectUnmatched w (matchedPeople st) (trackedPeople st)
                                      (clockReads st))))
       (trackedPeople st)"
  by (simp add: removeUnmatched_def foldl_mapDelete split: prod.splits)

lemma removeUnmatched_subset:
  "set (trackedPeople (removeUnmatched w st)) \<subseteq> set (trackedPeople st)"
  by (simp add: removeUnmatched_tracked)

text \<open>A frame keeps a property of every person that its three kinds of change keep.\<close>

lemma frame_preserves:
  assumes cool: "\<And>p. P p \<Longrightarrow> P' (cooldownStep p)"
    and upd: "\<And>p box cX cY now.
        P' p \<Longrightarrow> P' (fst (updateExistingPerson (frameHeight * CROSSING_LINE_POSITION) box cX cY now p))"
    and new: "\<And>k box cX cY t.
        P' \<lparr>pid = newId (dateNow w k) (randomSuffix w k), bbox = box, centerX = cX, centerY = cY,
           previousY = cY, lastSeen = t, crossed = False, direction = None,
           framesSinceCrossing = 0\<rparr>"
    and inv: "\<forall>q \<in> set (trackedPeople tr). P q"
  shows "\<forall>q \<in> set (trackedPeople (associateDetections w result frameHeight tr)). P' q"
    and "\<forall>q \<in> set (trackedPeople (snd (detectPeopleWithCrossing w predictions frameHeight tr))). P' q"
proof -
  let ?c = "cooldownPass (cleanupTrackedPeople (dateNow w (clockReads tr + 1)) (trackedPeople tr))"
  have c: "\<forall>q \<in> set ?c. P' q"
    using inv cool by (auto simp: cooldownPass_def cleanupTrackedPeople_def)
  have a: "\<forall>q \<in> set (trackedPeople (associateDetections w res frameHeight tr)). P' q" for res
    unfolding associateDetections_def Let_def
    by (rule loop_preserves[where P = P', OF upd new]) (use c in simp_all)
  show "\<forall>q \<in> set (trackedPeople (associateDetections w result frameHeight tr)). P' q" by (rule a)
  show "\<forall>q \<in> set (trackedPeople (snd (detectPeopleWithCrossing w predictions frameHeight tr))). P' q"
    using a[of "detectPeople predictions"] removeUnmatched_subset
    by (auto simp: detectPeopleWithCrossing_def Let_def)
qed

subsection \<open>The crossing state\<close>

lemma trackInv_cooldownStep: "trackInv p \<Longrightarrow> trackInv (cooldownStep p)"
  by (auto simp: trackInv_def cooldownStep_def)

lemma trackInv_update: "trackInv p \<Longrightarrow> trackInv (fst (updateExistingPerson l box cX cY now p))"
proof (cases rule: updateExistingPerson_cases[of l box cX cY now p])
  case none
  assume "trackInv p"
  then show ?thesis unfolding none by (simp add: trackInv_def)
next
  case down
  show ?thesis unfolding down(6) by (simp add: trackInv_def CROSSING_COOLDOWN_def)
next
  case up
  show ?thesis unfolding up(6) by (simp add: trackInv_def CROSSING_COOLDOWN_def)
qed

lemma trackInv_new:
  "trackInv \<lparr>pid = k, bbox = box, centerX = cX, centerY = cY, previousY = cY, lastSeen = t,
     crossed = False, direction = None, framesSinceCrossing = 0\<rparr>"
  by (simp add: trackInv_def CROSSING_COOLDOWN_def)

lemma registryInv_frame:
  assumes "registryInv tr"
  shows "registryInv (snd (detectPeopleWithCrossing w predictions frameHeight tr))"
proof -
  have i: "\<forall>q \<in> set (trackedPeople tr). trackInv q" using assms by (simp add: registryInv_def)
  have "\<forall>q \<in> set (trackedPeople (snd (detectPeopleWithCrossing w predictions frameHeight tr))).
          trackInv q"
    using trackInv_cooldownStep trackInv_update trackInv_new i
    by (rule frame_preserves(2)[where P = trackInv and P' = trackInv])
  then show ?thesis by (simp add: registryInv_def)
qed

lemma registryInv_runFrames:
  "registryInv tr \<Longrightarrow> registryInv (snd (runFrames w frames tr))"
proof (induction frames arbitrary: tr)
  case Nil
  then show ?case by simp
next
  case (Cons f frames)
  obtain ps fh where f: "f = (ps, fh)" by (cases f) auto
  have "registryInv (snd (detectPeopleWithCrossing w ps fh tr))"
    using Cons.prems by (rule registryInv_frame)
  then have "registryInv (snd (runFrames w frames (snd (detectPeopleWithCrossing w ps fh tr))))"
    by (rule Cons.IH)
  then show ?case unfolding f snd_runFrames_Cons .
qed

text \<open>
  C9. The crossing state of every person of the registry: out of cooldown the frame counter
  is \<open>0\<close> and the direction is empty; in cooldown the direction is \<open>in\<close> or \<open>out\<close>; the
  frame counter is below the cooldown window. It holds of the empty registry, after a reset,
  and a call of \<open>detectPeopleWithCrossing\<close>, hence any sequence of calls, keeps it.
\<close>

theorem crossing_state_invariant:
  "(registryInv tr \<longrightarrow> registryInv (snd (detectPeopleWithCrossing w predictions frameHeight tr)))
   \<and> registryInv (resetTracking tr)
   \<and> registryInv \<lparr>trackedPeople = [], clockReads = 0\<rparr>
   \<and> (registryInv tr \<longrightarrow> registryInv (snd (runFrames w frames tr)))"
proof (intro conjI impI)
  show "registryInv (resetTracking tr)" by (simp add: registryInv_def resetTracking_def)
  show "registryInv \<lparr>trackedPeople = [], clockReads = 0\<rparr>" by (simp add: registryInv_def)
qed (rule registryInv_frame registryInv_runFrames, assumption)+

text \<open>A person in the last frame of its cooldown, in a frame without detections.\<close>

theorem crossing_state_invariant_witness:
  "registryInv \<lparr>trackedPeople = [\<lparr>pid = ''person_900_abc'', bbox = (100, 105, 50, 50),
        centerX = 125, centerY = 130, previousY = 40, lastSeen = 900, crossed = True,
        direction = Some In, framesSinceCrossing = 14\<rparr>], clockReads = 0\<rparr>
   \<and> trackedPeople (snd (detectPeopleWithCrossing
        \<lparr>dateNow = (\<lambda>k. 1000), randomSuffix = (\<lambda>k. ''r'')\<rparr> [] 200
        \<lparr>trackedPeople = [\<lparr>pid = ''person_900_abc'', bbox = (100, 105, 50, 50),
           centerX = 125, centerY = 130, previousY = 40, lastSeen = 900, crossed = True,
           direction = Some In, framesSinceCrossing = 14\<rparr>], clockReads = 0\<rparr>))
     = [\<lparr>pid = ''person_900_abc'', bbox = (100, 105, 50, 50),
        centerX = 125, centerY = 130, previousY = 40, lastSeen = 900, crossed = False,
        direction = None, framesSinceCrossing = 0\<rparr>]
   \<and> registryInv (snd (detectPeopleWithCrossing
        \<lparr>dateNow = (\<lambda>k. 1000), randomSuffix = (\<lambda>k. ''r'')\<rparr> [] 200
        \<lparr>trackedPeople = [\<lparr>pid = ''person_900_abc'', bbox = (100, 105, 50, 50),
           centerX = 125, centerY = 130, previousY = 40, lastSeen = 900, crossed = True,
           direction = Some In, framesSinceCrossing = 14\<rparr>], clockReads = 0\<rparr>))"
proof -
  let ?w = "\<lparr>dateNow = (\<lambda>k. 1000), randomSuffix = (\<lambda>k. ''r'')\<rparr>"
  let ?tr = "\<lparr>trackedPeople = [\<lparr>pid = ''person_900_abc'', bbox = (100, 105, 50, 50),
        centerX = 125, centerY = 130, previousY = 40, lastSeen = 900, crossed = True,
        direction = Some In, framesSinceCrossing = 14\<rparr>], clockReads = 0\<rparr>"
  have i: "registryInv ?tr" by (simp add: registryInv_def trackInv_def constants)
  have e: "trackedPeople (snd (detectPeopleWithCrossing ?w [] 200 ?tr))
     = [\<lparr>pid = ''person_900_abc'', bbox = (100, 105, 50, 50),
        centerX = 125, centerY = 130, previousY = 40, lastSeen = 900, crossed = False,
        direction = None, framesSinceCrossing = 0\<rparr>]"
    by (simp add: eval_frame)
  from crossing_state_invariant[of ?tr ?w "[]" 200] i e show ?thesis by blast
qed

section \<open>Clock readings and identifiers\<close>

subsection \<open>Properties that only the later clock readings can touch\<close>

lemma processDetection_clock: "clockReads st \<le> clockReads (processDetection w l st det)"
proof -
  obtain x y wd ht where b: "d_bbox det = (x, y, wd, ht)" by (cases "d_bbox det") auto
  show ?thesis
  proof (cases "findClosestPerson (trackedPeople st) (x, y, wd, ht) (x + wd / 2) (y + ht / 2)")
    case None
    show ?thesis unfolding processDetection_new[OF b None] by simp
  next
    case (Some p)
    show ?thesis
    proof (cases "pid p \<in> matchedPeople st")
      case True
      show ?thesis by (simp add: processDetection_claimed[OF b Some True])
    next
      case False
      obtain p' dIn dOut where u: "updateExistingPerson l (x, y, wd, ht) (x + wd / 2) (y + ht / 2)
          (dateNow w (clockReads st)) p = (p', dIn, dOut)"
        by (cases "updateExistingPerson l (x, y, wd, ht) (x + wd / 2) (y + ht / 2)
          (dateNow w (clockReads st)) p") auto
      show ?thesis unfolding processDetection_matched[OF b Some False u] by simp
    qed
  qed
qed

lemma loop_clock: "clockReads st \<le> clockReads (foldl (processDetection w l) st ds)"
proof (induction ds rule: rev_induct)
  case Nil
  show ?case by simp
next
  case (snoc d ds)
  show ?case
    using snoc.IH processDetection_clock[of "foldl (processDetection w l) st ds" w l d]
    by simp
qed




lemma associateDetections_clock:
  "clockReads tr \<le> clockReads (associateDetections w result frameHeight tr)"
proof -
  have "clockReads tr + 2 \<le> clockReads (associateDetections w result frameHeight tr)"
    unfolding associateDetections_def Let_def
    using loop_clock[of "\<lparr>trackedPeople = cooldownPass (cleanupTrackedPeople
        (dateNow w (clockReads tr + 1)) (trackedPeople tr)), clockReads = clockReads tr + 1 + 1,
        matchedPeople = {}, countIn = 0, countOut = 0\<rparr>" w
        "frameHeight * CROSSING_LINE_POSITION" "sort_key (\<lambda>d. - d_score d) result"]
    by simp
  then show ?thesis by simp
qed

lemma collectUnmatched_mono: "k \<le> snd (collectUnmatched w m ps k)"
proof (induction ps arbitrary: k)
  case Nil
  show ?case by simp
next
  case (Cons a ps)
  show ?case
    using Cons.IH[of k] Cons.IH[of "k + 1"]
    by (simp add: case_prod_unfold)
qed

lemma frame_clock:
  "clockReads tr \<le> clockReads (snd (detectPeopleWithCrossing w predictions frameHeight tr))"
proof -
  let ?st = "associateDetections w (detectPeople predictions) frameHeight tr"
  have "clockReads ?st \<le> clockReads (removeUnmatched w ?st)"
    using collectUnmatched_mono[of "clockReads ?st" w "matchedPeople ?st" "trackedPeople ?st"]
    by (simp add: removeUnmatched_def case_prod_unfold)
  with associateDetections_clock[of tr w "detectPeople predictions" frameHeight]
  show ?thesis by (simp add: detectPeopleWithCrossing_def Let_def)
qed

lemma runFrames_clock: "clockReads tr \<le> clockReads (snd (runFrames w frames tr))"
proof (induction frames arbitrary: tr)
  case Nil
  show ?case by simp
next
  case (Cons f frames)
  obtain ps fh where f: "f = (ps, fh)" by (cases f) auto
  show ?case
    unfolding f snd_runFrames_Cons
    using frame_clock[of tr w ps fh] Cons.IH[of "snd (detectPeopleWithCrossing w ps fh tr)"]
    by simp
qed

subsection \<open>Identifiers of distinct clock values\<close>

lemma showNat_not_Nil: "showNat n \<noteq> []"
  by (subst showNat.simps) simp

lemma digit_inj:
  assumes "m < 10" "n < 10" "''0123456789'' ! m = ''0123456789'' ! n"
  shows "m = n"
proof -
  have "distinct ''0123456789''" by simp
  moreover have "m < length ''0123456789''" "n < length ''0123456789''" using assms by simp_all
  ultimately show ?thesis using assms(3) by (simp only: nth_eq_iff_index_eq)
qed

lemma showNat_inj: "showNat m = showNat n \<Longrightarrow> m = n"
proof (induction m arbitrary: n rule: showNat.induct)
  case (1 m)
  show ?case
  proof (cases "m < 10")
    case True
    then have m: "showNat m = [''0123456789'' ! m]" by (subst showNat.simps) simp
    show ?thesis
    proof (cases "n < 10")
      case n: True
      then have "showNat n = [''0123456789'' ! n]" by (subst showNat.simps) simp
      with m "1.prems" have "''0123456789'' ! m = ''0123456789'' ! n" by simp
      with True n show ?thesis by (rule digit_inj)
    next
      case False
      then have "showNat n = showNat (n div 10) @ [''0123456789'' ! (n mod 10)]"
        by (subst showNat.simps) simp
      with m "1.prems" showNat_not_Nil[of "n div 10"] show ?thesis by (cases "showNat (n div 10)") auto
    qed
  next
    case False
    then have m: "showNat m = showNat (m div 10) @ [''0123456789'' ! (m mod 10)]"
      by (subst showNat.simps) simp
    show ?thesis
    proof (cases "n < 10")
      case True
      then have "showNat n = [''0123456789'' ! n]" by (subst showNat.simps) simp
      with m "1.prems" showNat_not_Nil[of "m div 10"] show ?thesis by (cases "showNat (m div 10)") auto
    next
      case n: False
      then have "showNat n = showNat (n div 10) @ [''0123456789'' ! (n mod 10)]"
        by (subst showNat.simps) simp
      with m "1.prems" have a: "showNat (m div 10) = showNat (n div 10)"
        and b: "''0123456789'' ! (m mod 10) = ''0123456789'' ! (n mod 10)" by simp_all
      from "1.IH"[OF False a] have d: "m div 10 = n div 10" .
      have "m mod 10 = n mod 10" by (rule digit_inj[OF _ _ b]) simp_all
      with d show ?thesis by (metis div_mult_mod_eq)
    qed
  qed
qed

lemma newId_inj_clock:
  assumes "0 \<le> t" "0 \<le> t'" "newId t r = newId t' r"
  shows "t = t'"
proof -
  from assms(3) have "showInt t = showInt t'" by (simp add: newId_def)
  with assms(1,2) have "showNat (nat t) = showNat (nat t')" by (simp add: showInt_def)
  then have "nat t = nat t'" by (rule showNat_inj)
  with assms(1,2) show ?thesis by simp
qed

section \<open>The cooldown window\<close>

subsection \<open>Cooldown\<close>

lemma cooldownStep_pid [simp]: "pid (cooldownStep p) = pid p"
  by (simp add: cooldownStep_def)



lemma cooldownStep_idle: "\<not> crossed p \<Longrightarrow> cooldownStep p = p"
  by (simp add: cooldownStep_def)











lemma detectPeopleWithCrossing_eval:
  assumes "sort_key (\<lambda>d. - d_score d) (detectPeople predictions) = ds"
    and "frameHeight * CROSSING_LINE_POSITION = l"
    and "cooldownPass (cleanupTrackedPeople (dateNow w (clockReads tr + 1)) (trackedPeople tr)) = cooled"
    and "foldl (processDetection w l)
           \<lparr>trackedPeople = cooled, clockReads = clockReads tr + 2, matchedPeople = {},
            countIn = 0, countOut = 0\<rparr> ds = st"
    and "removeUnmatched w st = tr'"
  shows "detectPeopleWithCrossing w predictions frameHeight tr =
     (\<lparr>r_detections = detectPeople predictions, r_peopleCount = length (detectPeople predictions),
       r_countIn = countIn st, r_countOut = countOut st\<rparr>, tr')"
  using assms by (simp add: detectPeopleWithCrossing_def associateDetections_def Let_def)




section \<open>Removal of people\<close>

subsection \<open>The removal pass\<close>

lemma collectUnmatched_Cons_snd:
  "snd (collectUnmatched w m (a # ps) k) =
     (if pid a \<notin> m then snd (collectUnmatched w m ps (k + 1))
      else snd (collectUnmatched w m ps k))"
  by (simp add: case_prod_unfold)


declare collectUnmatched.simps(2) [simp del]

lemma removeUnmatched_clockReads:
  "clockReads (removeUnmatched w st)
      = snd (collectUnmatched w (matchedPeople st) (trackedPeople st) (clockReads st))"
  by (simp add: removeUnmatched_def case_prod_unfold)

lemma collectUnmatched_clock:
  "snd (collectUnmatched w m ps k) = k + length (filter (\<lambda>q. pid q \<notin> m) ps)"
  by (induction ps arbitrary: k) (simp_all add: collectUnmatched_Cons_snd)



lemma removeUnmatched_clock:
  "clockReads (removeUnmatched w st) = clockReads st + length (unmatchedOf st)"
  by (simp add: removeUnmatched_clockReads collectUnmatched_clock unmatchedOf_def)




subsection \<open>Identifiers along the loop\<close>

lemma pid_replace:
  "pid v = k \<Longrightarrow> map pid (map (\<lambda>q. if pid q = k then v else q) ps) = map pid ps"
  by (induction ps) auto




subsection \<open>A frame, seen from one person of the registry\<close>

lemma associateDetections_loop:
  "associateDetections w result frameHeight tr =
     foldl (processDetection w (frameHeight * CROSSING_LINE_POSITION))
       \<lparr>trackedPeople =
          cooldownPass (cleanupTrackedPeople (dateNow w (clockReads tr + 1)) (trackedPeople tr)),
        clockReads = clockReads tr + 2, matchedPeople = {}, countIn = 0, countOut = 0\<rparr>
       (sort_key (\<lambda>d. - d_score d) result)"
  by (simp add: associateDetections_def Let_def)



lemma associateDetections_preserves:
  assumes upd: "\<And>p box cX cY now.
        P p \<Longrightarrow> P (fst (updateExistingPerson (frameHeight * CROSSING_LINE_POSITION) box cX cY now p))"
    and new: "\<And>k box cX cY t.
        P \<lparr>pid = newId (dateNow w k) (randomSuffix w k), bbox = box, centerX = cX, centerY = cY,
           previousY = cY, lastSeen = t, crossed = False, direction = None,
           framesSinceCrossing = 0\<rparr>"
    and inv: "\<forall>q \<in> set (cooldownPass (cleanupTrackedPeople (dateNow w (clockReads tr + 1))
                  (trackedPeople tr))). P q"
  shows "\<forall>q \<in> set (trackedPeople (associateDetections w result frameHeight tr)). P q"
  unfolding associateDetections_loop
  by (rule loop_preserves[where P = P, OF upd new]) (use inv in simp_all)

lemma cooled_distinct:
  assumes "distinct (map pid (trackedPeople tr))"
  shows "distinct (map pid (cooldownPass (cleanupTrackedPeople now (trackedPeople tr))))"
proof -
  have "map pid (cooldownPass (cleanupTrackedPeople now (trackedPeople tr)))
      = map pid (cleanupTrackedPeople now (trackedPeople tr))"
    by (simp add: cooldownPass_def comp_def)
  then show ?thesis
    using assms by (simp add: cleanupTrackedPeople_def distinct_map_filter)
qed


lemma lastSeen_cooldownStep [simp]: "lastSeen (cooldownStep p) = lastSeen p"
  by (simp add: cooldownStep_def)






lemma snd_detectPeopleWithCrossing:
  "snd (detectPeopleWithCrossing w predictions frameHeight tr)
     = removeUnmatched w (associateDetections w (detectPeople predictions) frameHeight tr)"
  by (simp add: detectPeopleWithCrossing_def Let_def)




section \<open>Association of detections\<close>

subsection \<open>The order of the detections\<close>

lemma sortedDetections_descending:
  "sorted_wrt (\<lambda>a b. d_score b \<le> d_score a) (sort_key (\<lambda>d. - d_score d) result)"
proof -
  have "sorted (map (\<lambda>d. - d_score d) (sort_key (\<lambda>d. - d_score d) result))"
    by (rule sorted_sort_key)
  then show ?thesis by (simp add: sorted_map)
qed

lemma sortedDetections_stable:
  "filter (\<lambda>d. d_score d = s) (sort_key (\<lambda>d. - d_score d) result)
     = filter (\<lambda>d. d_score d = s) result"
  using sort_key_stable[of "\<lambda>d. - d_score d" "- s" result] by simp

lemma mapSet_fresh: "k \<notin> pid ` set ps \<Longrightarrow> mapSet k v ps = ps @ [v]"
  by (simp add: mapSet_def)

lemma updateExistingPerson_position:
  "bbox (fst (updateExistingPerson l box cX cY now p)) = box"
  "centerX (fst (updateExistingPerson l box cX cY now p)) = cX"
  "centerY (fst (updateExistingPerson l box cX cY now p)) = cY"
  "previousY (fst (updateExistingPerson l box cX cY now p)) = centerY p"
  "lastSeen (fst (updateExistingPerson l box cX cY now p)) = now"
  by (cases rule: updateExistingPerson_cases[of l box cX cY now p]; simp)+

subsection \<open>The identifiers of the registry\<close>

lemma distinct_mapSet:
  assumes "distinct (map pid ps)" "pid v = k"
  shows "distinct (map pid (mapSet k v ps))"
proof (cases "k \<in> pid ` set ps")
  case True
  then have "mapSet k v ps = map (\<lambda>q. if pid q = k then v else q) ps" by (simp add: mapSet_def)
  then have "map pid (mapSet k v ps) = map pid ps"
    using pid_replace[OF assms(2), of ps] by (simp only:)
  then show ?thesis using assms(1) by (simp only:)
next
  case False
  then show ?thesis using assms by (simp add: mapSet_def)
qed

lemma registryIds_mono: "registryIds w K ps \<Longrightarrow> K \<le> K' \<Longrightarrow> registryIds w K' ps"
  unfolding registryIds_def by (meson less_le_trans)

lemma registryIds_sub:
  assumes "registryIds w K ps" "distinct (map pid qs)" "pid ` set qs \<subseteq> pid ` set ps"
  shows "registryIds w K qs"
  unfolding registryIds_def
proof (intro conjI ballI)
  show "distinct (map pid qs)" by (rule assms(2))
  fix q assume "q \<in> set qs"
  with assms(3) obtain p where "p \<in> set ps" "pid p = pid q" by auto
  with assms(1) show "\<exists>k<K. pid q = newId (dateNow w k) (randomSuffix w k)"
    unfolding registryIds_def by metis
qed

lemma registryIds_cooled:
  assumes "registryIds w K (trackedPeople tr)"
  shows "registryIds w K (cooldownPass (cleanupTrackedPeople now (trackedPeople tr)))"
proof (rule registryIds_sub[OF assms])
  show "distinct (map pid (cooldownPass (cleanupTrackedPeople now (trackedPeople tr))))"
    using assms by (intro cooled_distinct) (simp add: registryIds_def)
  show "pid ` set (cooldownPass (cleanupTrackedPeople now (trackedPeople tr)))
      \<subseteq> pid ` set (trackedPeople tr)"
    by (auto simp: cooldownPass_def cleanupTrackedPeople_def)
qed

text \<open>The identifier of a new person is new when the generator does not repeat itself.\<close>

lemma new_identifier_unused:
  assumes "inj (\<lambda>k. newId (dateNow w k) (randomSuffix w k))" "registryIds w K ps"
  shows "newId (dateNow w K) (randomSuffix w K) \<notin> pid ` set ps"
proof
  assume "newId (dateNow w K) (randomSuffix w K) \<in> pid ` set ps"
  then obtain p where "p \<in> set ps" "pid p = newId (dateNow w K) (randomSuffix w K)" by auto
  with assms(2) obtain k where "k < K"
    "newId (dateNow w K) (randomSuffix w K) = newId (dateNow w k) (randomSuffix w k)"
    unfolding registryIds_def by metis
  with assms(1) show False by (auto dest: injD)
qed

lemma processDetection_registryIds:
  assumes "registryIds w (clockReads st) (trackedPeople st)"
  shows "registryIds w (clockReads (processDetection w l st det))
           (trackedPeople (processDetection w l st det))"
proof -
  obtain x y wd ht where b: "d_bbox det = (x, y, wd, ht)" by (cases "d_bbox det") auto
  from assms have d: "distinct (map pid (trackedPeople st))"
    and g: "\<forall>p \<in> set (trackedPeople st).
      \<exists>k<clockReads st. pid p = newId (dateNow w k) (randomSuffix w k)"
    by (simp_all add: registryIds_def)
  show ?thesis
  proof (cases "findClosestPerson (trackedPeople st) (x, y, wd, ht) (x + wd / 2) (y + ht / 2)")
    case None
    let ?i = "newId (dateNow w (clockReads st)) (randomSuffix w (clockReads st))"
    let ?v = "\<lparr>pid = ?i, bbox = (x, y, wd, ht), centerX = x + wd / 2, centerY = y + ht / 2,
       previousY = y + ht / 2, lastSeen = dateNow w (clockReads st + 1), crossed = False,
       direction = None, framesSinceCrossing = 0\<rparr>"
    have "distinct (map pid (mapSet ?i ?v (trackedPeople st)))"
      by (rule distinct_mapSet[OF d]) simp
    moreover have "\<exists>k<clockReads st + 2. pid q = newId (dateNow w k) (randomSuffix w k)"
      if "q \<in> set (mapSet ?i ?v (trackedPeople st))" for q
    proof -
      from that set_mapSet_subset[of ?i ?v "trackedPeople st"]
      have "q = ?v \<or> q \<in> set (trackedPeople st)" by auto
      then show ?thesis
      proof
        assume "q = ?v"
        then have "pid q = ?i" by simp
        then show ?thesis by (intro exI[of _ "clockReads st"]) simp
      next
        assume "q \<in> set (trackedPeople st)"
        with g obtain k where "k < clockReads st" "pid q = newId (dateNow w k) (randomSuffix w k)"
          by blast
        then show ?thesis by (intro exI[of _ k]) simp
      qed
    qed
    ultimately show ?thesis
      unfolding processDetection_new[OF b None] by (simp add: registryIds_def)
  next
    case (Some p)
    show ?thesis
    proof (cases "pid p \<in> matchedPeople st")
      case True
      show ?thesis using assms by (simp add: processDetection_claimed[OF b Some True])
    next
      case False
      obtain p' dIn dOut where u: "updateExistingPerson l (x, y, wd, ht) (x + wd / 2) (y + ht / 2)
          (dateNow w (clockReads st)) p = (p', dIn, dOut)"
        by (cases "updateExistingPerson l (x, y, wd, ht) (x + wd / 2) (y + ht / 2)
          (dateNow w (clockReads st)) p") auto
      have pp: "pid p' = pid p" using updateExistingPerson_pid[of l "(x, y, wd, ht)" "x + wd / 2"
          "y + ht / 2" "dateNow w (clockReads st)" p] u by simp
      let ?ps = "map (\<lambda>q. if pid q = pid p then p' else q) (trackedPeople st)"
      have m: "map pid ?ps = map pid (trackedPeople st)" by (rule pid_replace[OF pp])
      have "registryIds w (clockReads st) ?ps"
      proof (rule registryIds_sub[OF assms])
        show "distinct (map pid ?ps)" unfolding m by (rule d)
        show "pid ` set ?ps \<subseteq> pid ` set (trackedPeople st)"
          using arg_cong[OF m, of set] by (simp only: set_map)
      qed
      then have "registryIds w (clockReads st + 1) ?ps" by (rule registryIds_mono) simp
      then show ?thesis unfolding processDetection_matched[OF b Some False u] by simp
    qed
  qed
qed

lemma loop_registryIds:
  assumes "registryIds w (clockReads st) (trackedPeople st)"
  shows "registryIds w (clockReads (foldl (processDetection w l) st ds))
           (trackedPeople (foldl (processDetection w l) st ds))"
proof (induction ds rule: rev_induct)
  case Nil
  show ?case using assms by simp
next
  case (snoc d ds)
  show ?case using processDetection_registryIds[OF snoc.IH, of l d] by simp
qed

lemma frame_registryIds:
  assumes "registryIds w (clockReads tr) (trackedPeople tr)"
  shows "registryIds w (clockReads (associateDetections w result frameHeight tr))
           (trackedPeople (associateDetections w result frameHeight tr))"
    and "registryIds w (clockReads (snd (detectPeopleWithCrossing w predictions frameHeight tr)))
           (trackedPeople (snd (detectPeopleWithCrossing w predictions frameHeight tr)))"
proof -
  have a: "registryIds w (clockReads (associateDetections w res frameHeight tr))
           (trackedPeople (associateDetections w res frameHeight tr))" for res
    unfolding associateDetections_loop
  proof (rule loop_registryIds)
    have "registryIds w (clockReads tr + 2) (cooldownPass (cleanupTrackedPeople
        (dateNow w (clockReads tr + 1)) (trackedPeople tr)))"
      by (rule registryIds_mono[OF registryIds_cooled[OF assms]]) simp
    then show "registryIds w
        (clockReads \<lparr>trackedPeople = cooldownPass (cleanupTrackedPeople
            (dateNow w (clockReads tr + 1)) (trackedPeople tr)),
          clockReads = clockReads tr + 2, matchedPeople = {}, countIn = 0, countOut = 0\<rparr>)
        (trackedPeople \<lparr>trackedPeople = cooldownPass (cleanupTrackedPeople
            (dateNow w (clockReads tr + 1)) (trackedPeople tr)),
          clockReads = clockReads tr + 2, matchedPeople = {}, countIn = 0, countOut = 0\<rparr>)"
      by simp
  qed
  show "registryIds w (clockReads (associateDetections w result frameHeight tr))
           (trackedPeople (associateDetections w result frameHeight tr))" by (rule a)
  let ?st = "associateDetections w (detectPeople predictions) frameHeight tr"
  have "registryIds w (clockReads ?st) (trackedPeople (removeUnmatched w ?st))"
  proof (rule registryIds_sub[OF a])
    show "distinct (map pid (trackedPeople (removeUnmatched w ?st)))"
      using a[of "detectPeople predictions"]
      by (simp add: removeUnmatched_tracked registryIds_def distinct_map_filter)
    show "pid ` set (trackedPeople (removeUnmatched w ?st)) \<subseteq> pid ` set (trackedPeople ?st)"
      using removeUnmatched_subset[of w ?st] by blast
  qed
  then have "registryIds w (clockReads (removeUnmatched w ?st)) (trackedPeople (removeUnmatched w ?st))"
    by (rule registryIds_mono) (simp add: removeUnmatched_clock)
  then show "registryIds w (clockReads (snd (detectPeopleWithCrossing w predictions frameHeight tr)))
           (trackedPeople (snd (detectPeopleWithCrossing w predictions frameHeight tr)))"
    unfolding snd_detectPeopleWithCrossing .
qed

lemma runFrames_registryIds:
  "registryIds w (clockReads tr) (trackedPeople tr) \<Longrightarrow>
   registryIds w (clockReads (snd (runFrames w frames tr))) (trackedPeople (snd (runFrames w frames tr)))"
proof (induction frames arbitrary: tr)
  case Nil
  then show ?case by simp
next
  case (Cons f frames)
  obtain ps fh where f: "f = (ps, fh)" by (cases f) auto
  from Cons.IH[OF frame_registryIds(2)[OF Cons.prems, of ps fh]]
  show ?case unfolding f snd_runFrames_Cons .
qed

text \<open>
  C1 (amended). The detections are processed in descending order of confidence, equal
  scores in the order of the detector. Each one is scored against the people of the whole
  registry, claimed or not. When no person within the tracking threshold scores above
  \<open>0.3\<close>, a person is created with a freshly generated identifier, the position of the
  detection, \<open>previousY = centerY\<close>, no crossing state and the current clock value, and
  is claimed at once. The identifier is unique: no two people of the registry ever share
  one, and, the identifiers of the registry being strings that the generator returned at
  earlier clock readings (which holds of the empty registry, after a reset, and is kept
  by the cooldown pass, by every detection and by every call), the new identifier is not
  in the registry and the person is appended, provided that the generator never returns
  the same string at two clock readings. When the best person is unclaimed it is claimed
  and moved to the detection. When the best person is already claimed the detection is
  dropped: the state stays as it is.
\<close>

theorem association_by_confidence:
  "associateDetections w result frameHeight tr =
     foldl (processDetection w (frameHeight * CROSSING_LINE_POSITION))
       \<lparr>trackedPeople =
          cooldownPass (cleanupTrackedPeople (dateNow w (clockReads tr + 1)) (trackedPeople tr)),
        clockReads = clockReads tr + 2, matchedPeople = {}, countIn = 0, countOut = 0\<rparr>
       (sort_key (\<lambda>d. - d_score d) result)
   \<and> sorted_wrt (\<lambda>a b. d_score b \<le> d_score a) (sort_key (\<lambda>d. - d_score d) result)
   \<and> mset (sort_key (\<lambda>d. - d_score d) result) = mset result
   \<and> filter (\<lambda>d. d_score d = s) (sort_key (\<lambda>d. - d_score d) result)
       = filter (\<lambda>d. d_score d = s) result
   \<and> (d_bbox det = (x, y, wd, ht) \<longrightarrow>
        (findClosestPerson (trackedPeople st) (x, y, wd, ht) (x + wd / 2) (y + ht / 2) = None
           \<longleftrightarrow> (\<forall>q \<in> set (trackedPeople st).
                  calculateDistance (x + wd / 2) (y + ht / 2) (centerX q) (centerY q)
                    \<le> TRACKING_THRESHOLD
                  \<longrightarrow> \<not> js_gt (candidateScore (x, y, wd, ht) (x + wd / 2) (y + ht / 2) q) (Fin 0.3)))
      \<and> (findClosestPerson (trackedPeople st) (x, y, wd, ht) (x + wd / 2) (y + ht / 2) = None \<longrightarrow>
           processDetection w l st det =
             st\<lparr>trackedPeople :=
                  mapSet (newId (dateNow w (clockReads st)) (randomSuffix w (clockReads st)))
                    \<lparr>pid = newId (dateNow w (clockReads st)) (randomSuffix w (clockReads st)),
                     bbox = (x, y, wd, ht), centerX = x + wd / 2, centerY = y + ht / 2,
                     previousY = y + ht / 2, lastSeen = dateNow w (clockReads st + 1),
                     crossed = False, direction = None, framesSinceCrossing = 0\<rparr>
                    (trackedPeople st),
                clockReads := clockReads st + 2,
                matchedPeople :=
                  insert (newId (dateNow w (clockReads st)) (randomSuffix w (clockReads st)))
                    (matchedPeople st)\<rparr>)
      \<and> (\<forall>p. findClosestPerson (trackedPeople st) (x, y, wd, ht) (x + wd / 2) (y + ht / 2) = Some p
              \<and> pid p \<notin> matchedPeople st \<longrightarrow>
            (let p' = fst (updateExistingPerson l (x, y, wd, ht) (x + wd / 2) (y + ht / 2)
                            (dateNow w (clockReads st)) p)
             in trackedPeople (processDetection w l st det)
                  = map (\<lambda>q. if pid q = pid p then p' else q) (trackedPeople st)
                \<and> matchedPeople (processDetection w l st det) = insert (pid p) (matchedPeople st)
                \<and> pid p' = pid p \<and> bbox p' = (x, y, wd, ht) \<and> centerX p' = x + wd / 2
                \<and> centerY p' = y + ht / 2 \<and> previousY p' = centerY p
                \<and> lastSeen p' = dateNow w (clockReads st)))
      \<and> (\<forall>p. findClosestPerson (trackedPeople st) (x, y, wd, ht) (x + wd / 2) (y + ht / 2) = Some p
              \<and> pid p \<in> matchedPeople st \<longrightarrow>
            processDetection w l st det = st))
   \<and> (d_bbox det = (x, y, wd, ht)
       \<and> findClosestPerson (trackedPeople st) (x, y, wd, ht) (x + wd / 2) (y + ht / 2) = None
       \<and> inj (\<lambda>k. newId (dateNow w k) (randomSuffix w k))
       \<and> registryIds w (clockReads st) (trackedPeople st) \<longrightarrow>
       newId (dateNow w (clockReads st)) (randomSuffix w (clockReads st))
         \<notin> pid ` set (trackedPeople st)
       \<and> trackedPeople (processDetection w l st det) =
           trackedPeople st @
             [\<lparr>pid = newId (dateNow w (clockReads st)) (randomSuffix w (clockReads st)),
               bbox = (x, y, wd, ht), centerX = x + wd / 2, centerY = y + ht / 2,
               previousY = y + ht / 2, lastSeen = dateNow w (clockReads st + 1),
               crossed = False, direction = None, framesSinceCrossing = 0\<rparr>])
   \<and> (registryIds w (clockReads st) (trackedPeople st) \<longrightarrow>
       registryIds w (clockReads (processDetection w l st det))
         (trackedPeople (processDetection w l st det)))
   \<and> (registryIds w (clockReads tr) (trackedPeople tr) \<longrightarrow>
       registryIds w (clockReads tr + 2)
         (cooldownPass (cleanupTrackedPeople (dateNow w (clockReads tr + 1)) (trackedPeople tr)))
       \<and> registryIds w (clockReads (snd (runFrames w frames tr)))
           (trackedPeople (snd (runFrames w frames tr))))
   \<and> registryIds w 0 []
   \<and> registryIds w (clockReads (resetTracking tr)) (trackedPeople (resetTracking tr))"
proof (intro conjI impI allI)
  show "associateDetections w result frameHeight tr =
     foldl (processDetection w (frameHeight * CROSSING_LINE_POSITION))
       \<lparr>trackedPeople =
          cooldownPass (cleanupTrackedPeople (dateNow w (clockReads tr + 1)) (trackedPeople tr)),
        clockReads = clockReads tr + 2, matchedPeople = {}, countIn = 0, countOut = 0\<rparr>
       (sort_key (\<lambda>d. - d_score d) result)"
    by (rule associateDetections_loop)
  show "sorted_wrt (\<lambda>a b. d_score b \<le> d_score a) (sort_key (\<lambda>d. - d_score d) result)"
    by (rule sortedDetections_descending)
  show "mset (sort_key (\<lambda>d. - d_score d) result) = mset result" by simp
  show "filter (\<lambda>d. d_score d = s) (sort_key (\<lambda>d. - d_score d) result)
       = filter (\<lambda>d. d_score d = s) result"
    by (rule sortedDetections_stable)
  show "registryIds w 0 []" by (simp add: registryIds_def)
  show "registryIds w (clockReads (resetTracking tr)) (trackedPeople (resetTracking tr))"
    by (simp add: registryIds_def resetTracking_def)
next
  assume a: "d_bbox det = (x, y, wd, ht)
       \<and> findClosestPerson (trackedPeople st) (x, y, wd, ht) (x + wd / 2) (y + ht / 2) = None
       \<and> inj (\<lambda>k. newId (dateNow w k) (randomSuffix w k))
       \<and> registryIds w (clockReads st) (trackedPeople st)"
  then have b: "d_bbox det = (x, y, wd, ht)"
    and n: "findClosestPerson (trackedPeople st) (x, y, wd, ht) (x + wd / 2) (y + ht / 2) = None"
    and i: "inj (\<lambda>k. newId (dateNow w k) (randomSuffix w k))"
    and r: "registryIds w (clockReads st) (trackedPeople st)"
    by simp_all
  show u: "newId (dateNow w (clockReads st)) (randomSuffix w (clockReads st))
         \<notin> pid ` set (trackedPeople st)"
    using i r by (rule new_identifier_unused)
  show "trackedPeople (processDetection w l st det) =
           trackedPeople st @
             [\<lparr>pid = newId (dateNow w (clockReads st)) (randomSuffix w (clockReads st)),
               bbox = (x, y, wd, ht), centerX = x + wd / 2, centerY = y + ht / 2,
               previousY = y + ht / 2, lastSeen = dateNow w (clockReads st + 1),
               crossed = False, direction = None, framesSinceCrossing = 0\<rparr>]"
    unfolding processDetection_new[OF b n] using mapSet_fresh[OF u] by simp
next
  assume "registryIds w (clockReads st) (trackedPeople st)"
  then show "registryIds w (clockReads (processDetection w l st det))
         (trackedPeople (processDetection w l st det))"
    by (rule processDetection_registryIds)
next
  assume r: "registryIds w (clockReads tr) (trackedPeople tr)"
  show "registryIds w (clockReads tr + 2)
         (cooldownPass (cleanupTrackedPeople (dateNow w (clockReads tr + 1)) (trackedPeople tr)))"
    by (rule registryIds_mono[OF registryIds_cooled[OF r]]) simp
  show "registryIds w (clockReads (snd (runFrames w frames tr)))
           (trackedPeople (snd (runFrames w frames tr)))"
    using r by (rule runFrames_registryIds)
next
  assume b: "d_bbox det = (x, y, wd, ht)"
  show "findClosestPerson (trackedPeople st) (x, y, wd, ht) (x + wd / 2) (y + ht / 2) = None
           \<longleftrightarrow> (\<forall>q \<in> set (trackedPeople st).
                  calculateDistance (x + wd / 2) (y + ht / 2) (centerX q) (centerY q)
                    \<le> TRACKING_THRESHOLD
                  \<longrightarrow> \<not> js_gt (candidateScore (x, y, wd, ht) (x + wd / 2) (y + ht / 2) q) (Fin 0.3))"
    by (rule findClosestPerson_None_iff)
next
  assume b: "d_bbox det = (x, y, wd, ht)"
    and n: "findClosestPerson (trackedPeople st) (x, y, wd, ht) (x + wd / 2) (y + ht / 2) = None"
  show "processDetection w l st det =
             st\<lparr>trackedPeople :=
                  mapSet (newId (dateNow w (clockReads st)) (randomSuffix w (clockReads st)))
                    \<lparr>pid = newId (dateNow w (clockReads st)) (randomSuffix w (clockReads st)),
                     bbox = (x, y, wd, ht), centerX = x + wd / 2, centerY = y + ht / 2,
                     previousY = y + ht / 2, lastSeen = dateNow w (clockReads st + 1),
                     crossed = False, direction = None, framesSinceCrossing = 0\<rparr>
                    (trackedPeople st),
                clockReads := clockReads st + 2,
                matchedPeople :=
                  insert (newId (dateNow w (clockReads st)) (randomSuffix w (clockReads st)))
                    (matchedPeople st)\<rparr>"
    by (rule processDetection_new[OF b n])
next
  fix p
  assume b: "d_bbox det = (x, y, wd, ht)"
    and f: "findClosestPerson (trackedPeople st) (x, y, wd, ht) (x + wd / 2) (y + ht / 2) = Some p
              \<and> pid p \<notin> matchedPeople st"
  obtain p' dIn dOut where u: "updateExistingPerson l (x, y, wd, ht) (x + wd / 2) (y + ht / 2)
          (dateNow w (clockReads st)) p = (p', dIn, dOut)"
    by (cases "updateExistingPerson l (x, y, wd, ht) (x + wd / 2) (y + ht / 2)
          (dateNow w (clockReads st)) p") auto
  note pos = updateExistingPerson_position[of l "(x, y, wd, ht)" "x + wd / 2" "y + ht / 2"
      "dateNow w (clockReads st)" p]
    updateExistingPerson_pid[of l "(x, y, wd, ht)" "x + wd / 2" "y + ht / 2"
      "dateNow w (clockReads st)" p]
  from f have f1: "findClosestPerson (trackedPeople st) (x, y, wd, ht) (x + wd / 2) (y + ht / 2) = Some p"
    and f2: "pid p \<notin> matchedPeople st" by simp_all
  show "let p' = fst (updateExistingPerson l (x, y, wd, ht) (x + wd / 2) (y + ht / 2)
                            (dateNow w (clockReads st)) p)
             in trackedPeople (processDetection w l st det)
                  = map (\<lambda>q. if pid q = pid p then p' else q) (trackedPeople st)
                \<and> matchedPeople (processDetection w l st det) = insert (pid p) (matchedPeople st)
                \<and> pid p' = pid p \<and> bbox p' = (x, y, wd, ht) \<and> centerX p' = x + wd / 2
                \<and> centerY p' = y + ht / 2 \<and> previousY p' = centerY p
                \<and> lastSeen p' = dateNow w (clockReads st)"
    unfolding Let_def using pos by (simp add: processDetection_matched[OF b f1 f2 u] u)
next
  fix p
  assume b: "d_bbox det = (x, y, wd, ht)"
    and f: "findClosestPerson (trackedPeople st) (x, y, wd, ht) (x + wd / 2) (y + ht / 2) = Some p
              \<and> pid p \<in> matchedPeople st"
  from f have f1: "findClosestPerson (trackedPeople st) (x, y, wd, ht) (x + wd / 2) (y + ht / 2) = Some p"
    and f2: "pid p \<in> matchedPeople st" by simp_all
  show "processDetection w l st det = st"
    by (rule processDetection_claimed[OF b f1 f2])
qed

text \<open>
  C1 as stated fails. Two people stand 40 pixels apart; the first detection claims the
  first person; the second detection lies between them, scores best against the first
  person and above \<open>0.3\<close> against the second, unclaimed one. It is dropped: the second
  person is not moved to it and no person is created. And the identifier is as unique as
  the generator makes it: when the clock value and the random suffix of two new people of
  one frame agree, the second person replaces the first.
\<close>

theorem association_by_confidence_counterexample:
  "trackedPeople (snd (detectPeopleWithCrossing
      \<lparr>dateNow = (\<lambda>k. 1000), randomSuffix = (\<lambda>k. ''r'')\<rparr>
      [\<lparr>d_bbox = (100, 20, 50, 50), d_class = ''person'', d_score = 0.9\<rparr>,
       \<lparr>d_bbox = (110, 20, 50, 50), d_class = ''person'', d_score = 0.8\<rparr>] 200
      \<lparr>trackedPeople =
         [\<lparr>pid = ''person_900_a'', bbox = (100, 20, 50, 50), centerX = 125, centerY = 45,
            previousY = 45, lastSeen = 900, crossed = False, direction = None,
            framesSinceCrossing = 0\<rparr>,
          \<lparr>pid = ''person_900_b'', bbox = (140, 20, 50, 50), centerX = 165, centerY = 45,
            previousY = 45, lastSeen = 900, crossed = False, direction = None,
            framesSinceCrossing = 0\<rparr>],
       clockReads = 0\<rparr>))
   = [\<lparr>pid = ''person_900_a'', bbox = (100, 20, 50, 50), centerX = 125, centerY = 45,
        previousY = 45, lastSeen = 1000, crossed = False, direction = None,
        framesSinceCrossing = 0\<rparr>,
      \<lparr>pid = ''person_900_b'', bbox = (140, 20, 50, 50), centerX = 165, centerY = 45,
        previousY = 45, lastSeen = 900, crossed = False, direction = None,
        framesSinceCrossing = 0\<rparr>]
   \<and> calculateDistance 135 45 165 45 \<le> TRACKING_THRESHOLD
   \<and> js_gt (candidateScore (110, 20, 50, 50) 135 45
        \<lparr>pid = ''person_900_b'', bbox = (140, 20, 50, 50), centerX = 165, centerY = 45,
          previousY = 45, lastSeen = 900, crossed = False, direction = None,
          framesSinceCrossing = 0\<rparr>) (Fin 0.3)
   \<and> trackedPeople (snd (detectPeopleWithCrossing
      \<lparr>dateNow = (\<lambda>k. 1000), randomSuffix = (\<lambda>k. ''r'')\<rparr>
      [\<lparr>d_bbox = (100, 20, 50, 50), d_class = ''person'', d_score = 0.9\<rparr>,
       \<lparr>d_bbox = (600, 20, 50, 50), d_class = ''person'', d_score = 0.8\<rparr>] 200
      \<lparr>trackedPeople = [], clockReads = 0\<rparr>))
   = [\<lparr>pid = ''person_1000_r'', bbox = (600, 20, 50, 50), centerX = 625, centerY = 45,
        previousY = 45, lastSeen = 1000, crossed = False, direction = None,
        framesSinceCrossing = 0\<rparr>]"
proof -
  let ?w = "\<lparr>dateNow = (\<lambda>k. 1000), randomSuffix = (\<lambda>k. ''r'')\<rparr>"
  let ?d1 = "\<lparr>d_bbox = (100, 20, 50, 50), d_class = ''person'', d_score = 0.9\<rparr>"
  let ?d2 = "\<lparr>d_bbox = (110, 20, 50, 50), d_class = ''person'', d_score = 0.8\<rparr>"
  let ?a = "\<lparr>pid = ''person_900_a'', bbox = (100, 20, 50, 50), centerX = 125, centerY = 45,
            previousY = 45, lastSeen = 900, crossed = False, direction = None,
            framesSinceCrossing = 0\<rparr>"
  let ?a' = "\<lparr>pid = ''person_900_a'', bbox = (100, 20, 50, 50), centerX = 125, centerY = 45,
            previousY = 45, lastSeen = 1000, crossed = False, direction = None,
            framesSinceCrossing = 0\<rparr>"
  let ?b = "\<lparr>pid = ''person_900_b'', bbox = (140, 20, 50, 50), centerX = 165, centerY = 45,
            previousY = 45, lastSeen = 900, crossed = False, direction = None,
            framesSinceCrossing = 0\<rparr>"
  let ?tr = "\<lparr>trackedPeople = [?a, ?b], clockReads = 0\<rparr>"
  let ?s0 = "\<lparr>trackedPeople = [?a, ?b], clockReads = clockReads ?tr + 2, matchedPeople = {},
       countIn = 0, countOut = 0\<rparr>"
  let ?s1 = "\<lparr>trackedPeople = [?a', ?b], clockReads = 3, matchedPeople = {''person_900_a''},
       countIn = 0, countOut = 0\<rparr>"
  have s: "sort_key (\<lambda>d. - d_score d) (detectPeople [?d1, ?d2]) = [?d1, ?d2]"
    by (simp add: detectPeople_def constants)
  have l: "200 * CROSSING_LINE_POSITION = 100" by (simp add: constants)
  have c: "cooldownPass (cleanupTrackedPeople (dateNow ?w (clockReads ?tr + 1)) (trackedPeople ?tr))
      = [?a, ?b]"
    by (simp add: cooldownPass_def cleanupTrackedPeople_def cooldownStep_def constants)
  have p1: "processDetection ?w 100 ?s0 ?d1 = ?s1"
    by (simp add: processDetection_def updateExistingPerson_def eval_closest)
  have p2: "processDetection ?w 100 ?s1 ?d2 = ?s1"
    by (simp add: processDetection_def updateExistingPerson_def eval_closest)
  have f: "foldl (processDetection ?w 100) ?s0 [?d1, ?d2] = ?s1"
    by (simp only: foldl.simps p1 p2)
  have u: "removeUnmatched ?w ?s1 = \<lparr>trackedPeople = [?a', ?b], clockReads = 4\<rparr>"
    by (simp add: removeUnmatched_def mapDelete_def collectUnmatched.simps)
  note e = detectPeopleWithCrossing_eval[OF s l c f u]
  have sc: "calculateDistance 135 45 165 45 \<le> TRACKING_THRESHOLD
   \<and> js_gt (candidateScore (110, 20, 50, 50) 135 45 ?b) (Fin 0.3)"
    by (simp add: eval_closest)
  let ?far = "\<lparr>d_bbox = (600, 20, 50, 50), d_class = ''person'', d_score = 0.8\<rparr>"
  let ?n1 = "\<lparr>pid = ''person_1000_r'', bbox = (100, 20, 50, 50), centerX = 125, centerY = 45,
        previousY = 45, lastSeen = 1000, crossed = False, direction = None,
        framesSinceCrossing = 0\<rparr>"
  let ?n2 = "\<lparr>pid = ''person_1000_r'', bbox = (600, 20, 50, 50), centerX = 625, centerY = 45,
        previousY = 45, lastSeen = 1000, crossed = False, direction = None,
        framesSinceCrossing = 0\<rparr>"
  let ?empty = "\<lparr>trackedPeople = [], clockReads = 0\<rparr>"
  let ?t0 = "\<lparr>trackedPeople = [], clockReads = clockReads ?empty + 2, matchedPeople = {},
       countIn = 0, countOut = 0\<rparr>"
  let ?t1 = "\<lparr>trackedPeople = [?n1], clockReads = 4, matchedPeople = {''person_1000_r''},
       countIn = 0, countOut = 0\<rparr>"
  let ?t2 = "\<lparr>trackedPeople = [?n2], clockReads = 6, matchedPeople = {''person_1000_r''},
       countIn = 0, countOut = 0\<rparr>"
  have s': "sort_key (\<lambda>d. - d_score d) (detectPeople [?d1, ?far]) = [?d1, ?far]"
    by (simp add: detectPeople_def constants)
  have c': "cooldownPass (cleanupTrackedPeople (dateNow ?w (clockReads ?empty + 1))
      (trackedPeople ?empty)) = []"
    by (simp add: cooldownPass_def cleanupTrackedPeople_def)
  have q1: "processDetection ?w 100 ?t0 ?d1 = ?t1"
    by (simp add: processDetection_def eval_closest mapSet_def newId_def showInt_def
        showNat.simps)
  have q2: "processDetection ?w 100 ?t1 ?far = ?t2"
    by (simp add: processDetection_def eval_closest calculateDistance_gt_iff mapSet_def
        newId_def showInt_def showNat.simps)
  have f': "foldl (processDetection ?w 100) ?t0 [?d1, ?far] = ?t2"
    by (simp only: foldl.simps q1 q2)
  have u': "removeUnmatched ?w ?t2 = \<lparr>trackedPeople = [?n2], clockReads = 6\<rparr>"
    by (simp add: removeUnmatched_def mapDelete_def collectUnmatched.simps)
  note e' = detectPeopleWithCrossing_eval[OF s' l c' f' u']
  show ?thesis unfolding e e' using sc by simp
qed

text \<open>
  From the empty registry, with a clock that advances by one millisecond at every reading.
  The first frame creates one person. The second frame has six predictions, two of which
  the filter drops; in the order of confidence: a new person, a match, another new person,
  and a detection next to the first new person, which is dropped.
\<close>

theorem association_by_confidence_witness:
  "map (\<lambda>q. (pid q, centerX q, centerY q, previousY q, lastSeen q))
     (trackedPeople (snd (runFrames
        \<lparr>dateNow = (\<lambda>k. 1000 + int k), randomSuffix = (\<lambda>k. ''r'')\<rparr>
        [([\<lparr>d_bbox = (1100, 20, 50, 50), d_class = ''person'', d_score = 0.9\<rparr>], 200),
         ([\<lparr>d_bbox = (600, 20, 50, 50), d_class = ''person'', d_score = 0.5\<rparr>,
           \<lparr>d_bbox = (100, 20, 50, 50), d_class = ''person'', d_score = 0.9\<rparr>,
           \<lparr>d_bbox = (300, 20, 50, 50), d_class = ''cat'', d_score = 0.9\<rparr>,
           \<lparr>d_bbox = (800, 20, 50, 50), d_class = ''person'', d_score = 0.1\<rparr>,
           \<lparr>d_bbox = (1100, 30, 50, 50), d_class = ''person'', d_score = 0.7\<rparr>,
           \<lparr>d_bbox = (105, 20, 50, 50), d_class = ''person'', d_score = 0.4\<rparr>], 200)]
        \<lparr>trackedPeople = [], clockReads = 0\<rparr>)))
   = [(''person_1002_r'', 1125, 55, 45, 1008),
      (''person_1006_r'', 125, 45, 45, 1007),
      (''person_1009_r'', 625, 45, 45, 1010)]"
proof -
  let ?w = "\<lparr>dateNow = (\<lambda>k. 1000 + int k), randomSuffix = (\<lambda>k. ''r'')\<rparr>"
  let ?first = "\<lparr>d_bbox = (1100, 20, 50, 50), d_class = ''person'', d_score = 0.9\<rparr>"
  let ?lo = "\<lparr>d_bbox = (600, 20, 50, 50), d_class = ''person'', d_score = 0.5\<rparr>"
  let ?hi = "\<lparr>d_bbox = (100, 20, 50, 50), d_class = ''person'', d_score = 0.9\<rparr>"
  let ?cat = "\<lparr>d_bbox = (300, 20, 50, 50), d_class = ''cat'', d_score = 0.9\<rparr>"
  let ?weak = "\<lparr>d_bbox = (800, 20, 50, 50), d_class = ''person'', d_score = 0.1\<rparr>"
  let ?dt = "\<lparr>d_bbox = (1100, 30, 50, 50), d_class = ''person'', d_score = 0.7\<rparr>"
  let ?dup = "\<lparr>d_bbox = (105, 20, 50, 50), d_class = ''person'', d_score = 0.4\<rparr>"
  let ?t = "\<lparr>pid = ''person_1002_r'', bbox = (1100, 20, 50, 50), centerX = 1125, centerY = 45,
              previousY = 45, lastSeen = 1003, crossed = False, direction = None,
              framesSinceCrossing = 0\<rparr>"
  let ?t' = "\<lparr>pid = ''person_1002_r'', bbox = (1100, 30, 50, 50), centerX = 1125, centerY = 55,
              previousY = 45, lastSeen = 1008, crossed = False, direction = None,
              framesSinceCrossing = 0\<rparr>"
  let ?n1 = "\<lparr>pid = ''person_1006_r'', bbox = (100, 20, 50, 50), centerX = 125, centerY = 45,
              previousY = 45, lastSeen = 1007, crossed = False, direction = None,
              framesSinceCrossing = 0\<rparr>"
  let ?n2 = "\<lparr>pid = ''person_1009_r'', bbox = (600, 20, 50, 50), centerX = 625, centerY = 45,
              previousY = 45, lastSeen = 1010, crossed = False, direction = None,
              framesSinceCrossing = 0\<rparr>"
  let ?empty = "\<lparr>trackedPeople = [], clockReads = 0\<rparr>"
  let ?one = "\<lparr>trackedPeople = [?t], clockReads = 4\<rparr>"
  let ?a0 = "\<lparr>trackedPeople = [], clockReads = clockReads ?empty + 2, matchedPeople = {},
       countIn = 0, countOut = 0\<rparr>"
  let ?a1 = "\<lparr>trackedPeople = [?t], clockReads = 4, matchedPeople = {''person_1002_r''},
       countIn = 0, countOut = 0\<rparr>"
  let ?s0 = "\<lparr>trackedPeople = [?t], clockReads = clockReads ?one + 2, matchedPeople = {},
       countIn = 0, countOut = 0\<rparr>"
  let ?s1 = "\<lparr>trackedPeople = [?t, ?n1], clockReads = 8, matchedPeople = {''person_1006_r''},
       countIn = 0, countOut = 0\<rparr>"
  let ?s2 = "\<lparr>trackedPeople = [?t', ?n1], clockReads = 9,
       matchedPeople = {''person_1002_r'', ''person_1006_r''}, countIn = 0, countOut = 0\<rparr>"
  let ?s3 = "\<lparr>trackedPeople = [?t', ?n1, ?n2], clockReads = 11,
       matchedPeople = {''person_1009_r'', ''person_1002_r'', ''person_1006_r''},
       countIn = 0, countOut = 0\<rparr>"
  have l: "200 * CROSSING_LINE_POSITION = 100" by (simp add: constants)
  have sa: "sort_key (\<lambda>d. - d_score d) (detectPeople [?first]) = [?first]"
    by (simp add: detectPeople_def constants)
  have ca: "cooldownPass (cleanupTrackedPeople (dateNow ?w (clockReads ?empty + 1))
      (trackedPeople ?empty)) = []"
    by (simp add: cooldownPass_def cleanupTrackedPeople_def)
  have fa: "foldl (processDetection ?w 100) ?a0 [?first] = ?a1"
    by (simp add: processDetection_def eval_closest mapSet_def newId_def showInt_def
        showNat.simps)
  have ua: "removeUnmatched ?w ?a1 = ?one"
    by (simp add: removeUnmatched_def mapDelete_def collectUnmatched.simps)
  note ea = detectPeopleWithCrossing_eval[OF sa l ca fa ua]
  have gen: "inj (\<lambda>k. newId (dateNow ?w k) (randomSuffix ?w k))"
  proof (rule injI)
    fix j k :: nat
    assume "newId (dateNow ?w j) (randomSuffix ?w j) = newId (dateNow ?w k) (randomSuffix ?w k)"
    then have "newId (1000 + int j) ''r'' = newId (1000 + int k) ''r''" by simp
    then have "1000 + int j = 1000 + int k" by (rule newId_inj_clock[rotated 2]) simp_all
    then show "j = k" by simp
  qed
  have "registryIds ?w (clockReads ?empty) (trackedPeople ?empty)" by (simp add: registryIds_def)
  note association_by_confidence[where w = ?w and tr = ?empty
      and frames = "[([?first], 200)]", THEN conjunct2, THEN conjunct2, THEN conjunct2,
      THEN conjunct2, THEN conjunct2, THEN conjunct2, THEN conjunct2, THEN conjunct1,
      THEN mp, OF this, THEN conjunct2]
  then have "registryIds ?w 4 [?t]"
    unfolding runFrames.simps ea prod.case snd_conv by simp
  from registryIds_mono[OF this, of 6]
  have reg: "registryIds ?w (clockReads ?s0) (trackedPeople ?s0)" by simp
  have s: "sort_key (\<lambda>d. - d_score d) (detectPeople [?lo, ?hi, ?cat, ?weak, ?dt, ?dup])
      = [?hi, ?dt, ?lo, ?dup]"
    by (simp add: detectPeople_def constants)
  have c: "cooldownPass (cleanupTrackedPeople (dateNow ?w (clockReads ?one + 1)) (trackedPeople ?one))
      = [?t]"
    by (simp add: cooldownPass_def cleanupTrackedPeople_def cooldownStep_def constants)
  have n1: "findClosestPerson (trackedPeople ?s0) (100, 20, 50, 50) (100 + 50 / 2) (20 + 50 / 2) = None"
    by (simp add: eval_closest calculateDistance_gt_iff)
  have b1: "d_bbox ?hi = (100, 20, 50, 50)" by simp
  note t1 = association_by_confidence[where w = ?w and det = ?hi and x = 100 and y = 20
        and wd = 50 and ht = 50 and st = ?s0 and l = 100]
  note new1 = t1[THEN conjunct2, THEN conjunct2, THEN conjunct2, THEN conjunct2,
      THEN conjunct1, THEN mp, OF b1, THEN conjunct2, THEN conjunct1, THEN mp, OF n1]
  note app1 = t1[THEN conjunct2, THEN conjunct2, THEN conjunct2, THEN conjunct2,
      THEN conjunct2, THEN conjunct1, THEN mp, OF conjI[OF b1 conjI[OF n1 conjI[OF gen reg]]],
      THEN conjunct2]
  have i1: "newId (dateNow ?w (clockReads ?s0)) (randomSuffix ?w (clockReads ?s0)) = ''person_1006_r''"
    by (simp add: newId_def showInt_def showNat.simps)
  have p1: "processDetection ?w 100 ?s0 ?hi = ?s1"
    unfolding new1 using app1 unfolding new1 i1 by simp
  have p2: "processDetection ?w 100 ?s1 ?dt = ?s2"
    by (simp add: processDetection_def updateExistingPerson_def eval_closest
        calculateDistance_gt_iff)
  have p3: "processDetection ?w 100 ?s2 ?lo = ?s3"
    by (simp add: processDetection_def eval_closest calculateDistance_gt_iff mapSet_def
        newId_def showInt_def showNat.simps)
  have f4: "findClosestPerson (trackedPeople ?s3) (105, 20, 50, 50) (105 + 50 / 2) (20 + 50 / 2) = Some ?n1"
    by (simp add: eval_closest calculateDistance_gt_iff)
  note t4 = association_by_confidence[where w = ?w and det = ?dup and x = 105 and y = 20
        and wd = 50 and ht = 50 and st = ?s3 and l = 100,
        THEN conjunct2, THEN conjunct2, THEN conjunct2, THEN conjunct2, THEN conjunct1, THEN mp]
  have b4: "d_bbox ?dup = (105, 20, 50, 50)" by simp
  have m4: "pid ?n1 \<in> matchedPeople ?s3" by simp
  note p4 = t4[OF b4, THEN conjunct2, THEN conjunct2, THEN conjunct2, THEN spec, THEN mp,
      OF conjI[OF f4 m4]]
  have f: "foldl (processDetection ?w 100) ?s0 [?hi, ?dt, ?lo, ?dup] = ?s3"
    by (simp only: foldl.simps p1 p2 p3 p4)
  have u: "removeUnmatched ?w ?s3 = \<lparr>trackedPeople = [?t', ?n1, ?n2], clockReads = 11\<rparr>"
    by (simp add: removeUnmatched_def mapDelete_def collectUnmatched.simps)
  note e = detectPeopleWithCrossing_eval[OF s l c f u]
  show ?thesis by (simp only: runFrames.simps ea e prod.case snd_conv) simp
qed

section \<open>The two-person scenario\<close>

subsection \<open>Two people, two detections\<close>

lemma findClosestPerson_best:
  assumes p: "p \<in> set ps"
    and near: "calculateDistance cX cY (centerX p) (centerY p) \<le> TRACKING_THRESHOLD"
    and good: "js_gt (candidateScore box cX cY p) (Fin 0.3)"
    and best: "\<forall>q \<in> set ps. q \<noteq> p \<longrightarrow> prefers box cX cY p q"
  shows "findClosestPerson ps box cX cY = Some p"
proof (cases "findClosestPerson ps box cX cY")
  case None
  with p near good show ?thesis by (simp add: findClosestPerson_None_iff)
next
  case (Some r)
  note r = findClosestPerson_Some[OF Some]
  have "r = p"
  proof (rule ccontr)
    assume "r \<noteq> p"
    with best r(1) have "prefers box cX cY p r" by blast
    with r(2) have "js_gt (candidateScore box cX cY p) (candidateScore box cX cY r)"
      by (simp add: prefers_def)
    moreover from r(4) p near have "\<not> js_gt (candidateScore box cX cY p) (candidateScore box cX cY r)"
      by blast
    ultimately show False by simp
  qed
  with Some show ?thesis by simp
qed

lemma updateExistingPerson_result:
  assumes "updateExistingPerson l box cX cY now p = (p', i, out)"
  shows "pid p' = pid p" "bbox p' = box" "centerX p' = cX" "centerY p' = cY"
proof -
  have "p' = fst (updateExistingPerson l box cX cY now p)" using assms by simp
  then show "pid p' = pid p" "bbox p' = box" "centerX p' = cX" "centerY p' = cY"
    by (simp_all add: updateExistingPerson_position)
qed

lemma loop_two:
  assumes ps: "trackedPeople st = [u, v] \<or> trackedPeople st = [v, u]"
    and ne: "pid u \<noteq> pid v" and m0: "matchedPeople st = {}"
    and d: "d_bbox d = (x1, y1, w1, h1)" and e: "d_bbox e = (x2, y2, w2, h2)"
    and near_u: "calculateDistance (x1 + w1 / 2) (y1 + h1 / 2) (centerX u) (centerY u)
                   \<le> TRACKING_THRESHOLD"
    and good_u: "js_gt (candidateScore (x1, y1, w1, h1) (x1 + w1 / 2) (y1 + h1 / 2) u) (Fin 0.3)"
    and pref_u: "prefers (x1, y1, w1, h1) (x1 + w1 / 2) (y1 + h1 / 2) u v"
    and near_v: "calculateDistance (x2 + w2 / 2) (y2 + h2 / 2) (centerX v) (centerY v)
                   \<le> TRACKING_THRESHOLD"
    and good_v: "js_gt (candidateScore (x2, y2, w2, h2) (x2 + w2 / 2) (y2 + h2 / 2) v) (Fin 0.3)"
    and pref_v: "\<forall>q. bbox q = (x1, y1, w1, h1) \<and> centerX q = x1 + w1 / 2
                    \<and> centerY q = y1 + h1 / 2 \<longrightarrow>
                  prefers (x2, y2, w2, h2) (x2 + w2 / 2) (y2 + h2 / 2) v q"
    and uu: "updateExistingPerson l (x1, y1, w1, h1) (x1 + w1 / 2) (y1 + h1 / 2)
               (dateNow w (clockReads st)) u = (u', i1, o1)"
    and vv: "updateExistingPerson l (x2, y2, w2, h2) (x2 + w2 / 2) (y2 + h2 / 2)
               (dateNow w (clockReads st + 1)) v = (v', i2, o2)"
  shows "countIn (foldl (processDetection w l) st [d, e]) = countIn st + i1 + i2"
    and "countOut (foldl (processDetection w l) st [d, e]) = countOut st + o1 + o2"
    and "map pid (trackedPeople (foldl (processDetection w l) st [d, e]))
           = map pid (trackedPeople st)"
    and "matchedPeople (foldl (processDetection w l) st [d, e]) = {pid u, pid v}"
proof -
  note ru = updateExistingPerson_result[OF uu]
  note rv = updateExistingPerson_result[OF vv]
  have pu: "pid u' = pid u" and pv: "pid v' = pid v" by (rule ru rv)+
  have posu: "bbox u' = (x1, y1, w1, h1) \<and> centerX u' = x1 + w1 / 2 \<and> centerY u' = y1 + h1 / 2"
    using ru by simp
  have f1: "findClosestPerson (trackedPeople st) (x1, y1, w1, h1) (x1 + w1 / 2) (y1 + h1 / 2) = Some u"
    using ps pref_u by (intro findClosestPerson_best near_u good_u) auto
  have un: "pid u \<notin> matchedPeople st" using m0 by simp
  define st1 where "st1 = processDetection w l st d"
  have s1: "st1 = st\<lparr>trackedPeople := map (\<lambda>q. if pid q = pid u then u' else q) (trackedPeople st),
        clockReads := clockReads st + 1,
        matchedPeople := insert (pid u) (matchedPeople st),
        countIn := countIn st + i1, countOut := countOut st + o1\<rparr>"
    unfolding st1_def by (rule processDetection_matched[OF d f1 un uu])
  have t1: "trackedPeople st1 = [u', v] \<or> trackedPeople st1 = [v, u']"
    using ps ne by (auto simp: s1)
  have f2: "findClosestPerson (trackedPeople st1) (x2, y2, w2, h2) (x2 + w2 / 2) (y2 + h2 / 2) = Some v"
  proof (rule findClosestPerson_best[OF _ near_v good_v])
    show "v \<in> set (trackedPeople st1)" using t1 by auto
    show "\<forall>q \<in> set (trackedPeople st1). q \<noteq> v \<longrightarrow>
        prefers (x2, y2, w2, h2) (x2 + w2 / 2) (y2 + h2 / 2) v q"
      using t1 pref_v posu by auto
  qed
  have vn: "pid v \<notin> matchedPeople st1" using m0 ne by (simp add: s1)
  have vv1: "updateExistingPerson l (x2, y2, w2, h2) (x2 + w2 / 2) (y2 + h2 / 2)
               (dateNow w (clockReads st1)) v = (v', i2, o2)"
    using vv by (simp add: s1)
  have s2: "processDetection w l st1 e =
      st1\<lparr>trackedPeople := map (\<lambda>q. if pid q = pid v then v' else q) (trackedPeople st1),
        clockReads := clockReads st1 + 1,
        matchedPeople := insert (pid v) (matchedPeople st1),
        countIn := countIn st1 + i2, countOut := countOut st1 + o2\<rparr>"
    by (rule processDetection_matched[OF e f2 vn vv1])
  have fold: "foldl (processDetection w l) st [d, e] = processDetection w l st1 e"
    by (simp add: st1_def)
  show "countIn (foldl (processDetection w l) st [d, e]) = countIn st + i1 + i2"
    unfolding fold s2 by (simp add: s1)
  show "countOut (foldl (processDetection w l) st [d, e]) = countOut st + o1 + o2"
    unfolding fold s2 by (simp add: s1)
  show "matchedPeople (foldl (processDetection w l) st [d, e]) = {pid u, pid v}"
    unfolding fold s2 using m0 by (auto simp: s1)
  have "map pid (trackedPeople (processDetection w l st1 e)) = map pid (trackedPeople st1)"
    unfolding s2 using pid_replace[OF pv, of "trackedPeople st1"] by simp
  also have "\<dots> = map pid (trackedPeople st)"
    unfolding s1 using pid_replace[OF pu, of "trackedPeople st"] by simp
  finally show "map pid (trackedPeople (foldl (processDetection w l) st [d, e]))
           = map pid (trackedPeople st)"
    unfolding fold .
qed

text \<open>When every person is claimed the removal pass reads no clock and removes nobody.\<close>

lemma collectUnmatched_all_matched:
  "pid ` set ps \<subseteq> m \<Longrightarrow> collectUnmatched w m ps k = ([], k)"
  by (induction ps) (simp_all add: collectUnmatched.simps)

lemma removeUnmatched_all_matched:
  assumes "pid ` set (trackedPeople st) \<subseteq> matchedPeople st"
  shows "removeUnmatched w st = \<lparr>trackedPeople = trackedPeople st, clockReads = clockReads st\<rparr>"
  using collectUnmatched_all_matched[OF assms, of w "clockReads st"]
  by (simp add: removeUnmatched_def)

lemma frame_two:
  assumes reg: "trackedPeople tr = [u, v] \<or> trackedPeople tr = [v, u]"
    and ne: "pid u \<noteq> pid v"
    and nc: "\<not> crossed u" "\<not> crossed v"
    and time: "dateNow w (clockReads tr + 1) - lastSeen u \<le> TRACKING_TIMEOUT"
      "dateNow w (clockReads tr + 1) - lastSeen v \<le> TRACKING_TIMEOUT"
    and dets: "sort_key (\<lambda>d. - d_score d) (detectPeople predictions) = [d, e]"
    and d: "d_bbox d = (x1, y1, w1, h1)" and e: "d_bbox e = (x2, y2, w2, h2)"
    and near_u: "calculateDistance (x1 + w1 / 2) (y1 + h1 / 2) (centerX u) (centerY u)
                   \<le> TRACKING_THRESHOLD"
    and good_u: "js_gt (candidateScore (x1, y1, w1, h1) (x1 + w1 / 2) (y1 + h1 / 2) u) (Fin 0.3)"
    and pref_u: "prefers (x1, y1, w1, h1) (x1 + w1 / 2) (y1 + h1 / 2) u v"
    and near_v: "calculateDistance (x2 + w2 / 2) (y2 + h2 / 2) (centerX v) (centerY v)
                   \<le> TRACKING_THRESHOLD"
    and good_v: "js_gt (candidateScore (x2, y2, w2, h2) (x2 + w2 / 2) (y2 + h2 / 2) v) (Fin 0.3)"
    and pref_v: "\<forall>q. bbox q = (x1, y1, w1, h1) \<and> centerX q = x1 + w1 / 2
                    \<and> centerY q = y1 + h1 / 2 \<longrightarrow>
                  prefers (x2, y2, w2, h2) (x2 + w2 / 2) (y2 + h2 / 2) v q"
    and uu: "\<And>now. \<exists>u'. updateExistingPerson (frameHeight * CROSSING_LINE_POSITION)
               (x1, y1, w1, h1) (x1 + w1 / 2) (y1 + h1 / 2) now u = (u', i1, o1)"
    and vv: "\<And>now. \<exists>v'. updateExistingPerson (frameHeight * CROSSING_LINE_POSITION)
               (x2, y2, w2, h2) (x2 + w2 / 2) (y2 + h2 / 2) now v = (v', i2, o2)"
  shows "r_countIn (fst (detectPeopleWithCrossing w predictions frameHeight tr)) = i1 + i2"
    and "r_countOut (fst (detectPeopleWithCrossing w predictions frameHeight tr)) = o1 + o2"
    and "map pid (trackedPeople (snd (detectPeopleWithCrossing w predictions frameHeight tr)))
           = map pid (trackedPeople tr)"
proof -
  let ?l = "frameHeight * CROSSING_LINE_POSITION"
  let ?st0 = "\<lparr>trackedPeople =
          cooldownPass (cleanupTrackedPeople (dateNow w (clockReads tr + 1)) (trackedPeople tr)),
        clockReads = clockReads tr + 2, matchedPeople = {}, countIn = 0, countOut = 0\<rparr>"
  have cool: "cooldownPass (cleanupTrackedPeople (dateNow w (clockReads tr + 1)) (trackedPeople tr))
      = trackedPeople tr"
    using reg nc time
    by (auto simp: cooldownPass_def cleanupTrackedPeople_def cooldownStep_idle not_less)
  have ps: "trackedPeople ?st0 = [u, v] \<or> trackedPeople ?st0 = [v, u]"
    using reg cool by simp
  obtain u' where u': "updateExistingPerson ?l (x1, y1, w1, h1) (x1 + w1 / 2) (y1 + h1 / 2)
      (dateNow w (clockReads ?st0)) u = (u', i1, o1)"
    using uu by blast
  obtain v' where v': "updateExistingPerson ?l (x2, y2, w2, h2) (x2 + w2 / 2) (y2 + h2 / 2)
      (dateNow w (clockReads ?st0 + 1)) v = (v', i2, o2)"
    using vv by blast
  have m0: "matchedPeople ?st0 = {}" by simp
  note two = loop_two[OF ps ne m0 d e near_u good_u pref_u near_v good_v pref_v u' v']
  define st where "st = foldl (processDetection w ?l) ?st0 [d, e]"
  have a: "associateDetections w (detectPeople predictions) frameHeight tr = st"
    unfolding st_def associateDetections_loop dets ..
  have ids: "map pid (trackedPeople st) = map pid (trackedPeople tr)"
    using two(3) cool unfolding st_def[symmetric] by simp
  have "pid ` set (trackedPeople st) = set (map pid (trackedPeople st))" by simp
  also have "\<dots> = {pid u, pid v}" unfolding ids using reg by auto
  finally have all: "pid ` set (trackedPeople st) \<subseteq> matchedPeople st"
    using two(4) unfolding st_def[symmetric] by simp
  have r: "removeUnmatched w st = \<lparr>trackedPeople = trackedPeople st, clockReads = clockReads st\<rparr>"
    by (rule removeUnmatched_all_matched[OF all])
  show "r_countIn (fst (detectPeopleWithCrossing w predictions frameHeight tr)) = i1 + i2"
    using two(1) unfolding st_def[symmetric]
    by (simp add: detectPeopleWithCrossing_def Let_def a)
  show "r_countOut (fst (detectPeopleWithCrossing w predictions frameHeight tr)) = o1 + o2"
    using two(2) unfolding st_def[symmetric]
    by (simp add: detectPeopleWithCrossing_def Let_def a)
  show "map pid (trackedPeople (snd (detectPeopleWithCrossing w predictions frameHeight tr)))
           = map pid (trackedPeople tr)"
    by (simp add: snd_detectPeopleWithCrossing a r ids)
qed

subsection \<open>The conditions in the terms of the specification\<close>

lemma candidateScore_positive:
  assumes "positiveBox box" "positiveBox (bbox p)"
  shows "candidateScore box cX cY p = Fin (spec_score box cX cY p)"
proof -
  obtain x1 y1 w1 h1 where b: "box = (x1, y1, w1, h1)" by (cases box) auto
  obtain x2 y2 w2 h2 where c: "bbox p = (x2, y2, w2, h2)" by (cases "bbox p") auto
  from assms b c have "0 < w1" "0 < h1" "0 < w2" "0 < h2" by (simp_all add: positiveBox_def)
  then show ?thesis unfolding b using c by (rule candidateScore_spec)
qed

lemma prefers_spec:
  assumes "positiveBox box" "positiveBox (bbox own)" "positiveBox (bbox other)"
    and "spec_prefers box cX cY own other"
  shows "prefers box cX cY own other"
  using assms(4)
  unfolding prefers_def spec_prefers_def calculateDistance_def
    candidateScore_positive[OF assms(1,2)] candidateScore_positive[OF assms(1,3)]
  by simp

lemma runFrames_Cons:
  "runFrames w ((predictions, frameHeight) # frames) tr =
     (fst (detectPeopleWithCrossing w predictions frameHeight tr)
        # fst (runFrames w frames (snd (detectPeopleWithCrossing w predictions frameHeight tr))),
      snd (runFrames w frames (snd (detectPeopleWithCrossing w predictions frameHeight tr))))"
  by (simp add: case_prod_unfold)

text \<open>
  C4 (amended). After frame 1 the registry holds two people out of cooldown, \<open>A\<close> with
  centre at \<open>y = 30\<close> and \<open>B\<close> at \<open>y = 170\<close>, both seen within the timeout. Frame 2
  (height 200, line at \<open>y = 100\<close>) has two detections, in either order of confidence, one
  at \<open>y = 130\<close> for \<open>A\<close> and one at \<open>y = 60\<close> for \<open>B\<close>. All boxes have positive width and
  height. Each detection is within the tracking threshold of its own person, its score
  against that person, which is the weighted sum of the specification, is above \<open>0.3\<close>,
  and the other person, where it stood and where the other detection is, is beyond the
  tracking threshold or scores strictly less. Then the call returns one entry and one
  exit, and the registry holds the same two identifiers in the same order.
\<close>

theorem two_person_scenario:
  assumes reg: "trackedPeople tr = [tA, tB] \<or> trackedPeople tr = [tB, tA]"
    and ne: "pid tA \<noteq> pid tB"
    and a30: "centerY tA = 30" and b170: "centerY tB = 170"
    and nc: "\<not> crossed tA" "\<not> crossed tB"
    and time: "dateNow w (clockReads tr + 1) - lastSeen tA \<le> TRACKING_TIMEOUT"
      "dateNow w (clockReads tr + 1) - lastSeen tB \<le> TRACKING_TIMEOUT"
    and dets: "sort_key (\<lambda>d. - d_score d) (detectPeople predictions) = [dA, dB]
               \<or> sort_key (\<lambda>d. - d_score d) (detectPeople predictions) = [dB, dA]"
    and dA: "d_bbox dA = (xa, ya, wa, ha)" and a130: "ya + ha / 2 = 130"
    and dB: "d_bbox dB = (xb, yb, wb, hb)" and b60: "yb + hb / 2 = 60"
    and pos: "positiveBox (bbox tA)" "positiveBox (bbox tB)"
      "positiveBox (xa, ya, wa, ha)" "positiveBox (xb, yb, wb, hb)"
    and near_A: "sqrt ((centerX tA - (xa + wa / 2))\<^sup>2 + (centerY tA - (ya + ha / 2))\<^sup>2)
                   \<le> TRACKING_THRESHOLD"
    and good_A: "0.3 < spec_score (xa, ya, wa, ha) (xa + wa / 2) (ya + ha / 2) tA"
    and pref_A: "spec_prefers (xa, ya, wa, ha) (xa + wa / 2) (ya + ha / 2) tA tB"
      "\<forall>q. bbox q = (xb, yb, wb, hb) \<and> centerX q = xb + wb / 2 \<and> centerY q = yb + hb / 2
           \<longrightarrow> spec_prefers (xa, ya, wa, ha) (xa + wa / 2) (ya + ha / 2) tA q"
    and near_B: "sqrt ((centerX tB - (xb + wb / 2))\<^sup>2 + (centerY tB - (yb + hb / 2))\<^sup>2)
                   \<le> TRACKING_THRESHOLD"
    and good_B: "0.3 < spec_score (xb, yb, wb, hb) (xb + wb / 2) (yb + hb / 2) tB"
    and pref_B: "spec_prefers (xb, yb, wb, hb) (xb + wb / 2) (yb + hb / 2) tB tA"
      "\<forall>q. bbox q = (xa, ya, wa, ha) \<and> centerX q = xa + wa / 2 \<and> centerY q = ya + ha / 2
           \<longrightarrow> spec_prefers (xb, yb, wb, hb) (xb + wb / 2) (yb + hb / 2) tB q"
  shows "r_countIn (fst (detectPeopleWithCrossing w predictions 200 tr)) = 1
       \<and> r_countOut (fst (detectPeopleWithCrossing w predictions 200 tr)) = 1
       \<and> map pid (trackedPeople (snd (detectPeopleWithCrossing w predictions 200 tr)))
           = map pid (trackedPeople tr)
       \<and> length (trackedPeople (snd (detectPeopleWithCrossing w predictions 200 tr))) = 2"
proof -
  have l: "200 * CROSSING_LINE_POSITION = 100" by (simp add: constants)
  have cnear_A: "calculateDistance (xa + wa / 2) (ya + ha / 2) (centerX tA) (centerY tA)
                   \<le> TRACKING_THRESHOLD"
    using near_A by (simp add: calculateDistance_def)
  have cnear_B: "calculateDistance (xb + wb / 2) (yb + hb / 2) (centerX tB) (centerY tB)
                   \<le> TRACKING_THRESHOLD"
    using near_B by (simp add: calculateDistance_def)
  have cgood_A: "js_gt (candidateScore (xa, ya, wa, ha) (xa + wa / 2) (ya + ha / 2) tA) (Fin 0.3)"
    unfolding candidateScore_positive[OF pos(3,1)] using good_A by simp
  have cgood_B: "js_gt (candidateScore (xb, yb, wb, hb) (xb + wb / 2) (yb + hb / 2) tB) (Fin 0.3)"
    unfolding candidateScore_positive[OF pos(4,2)] using good_B by simp
  have cpref_A1: "prefers (xa, ya, wa, ha) (xa + wa / 2) (ya + ha / 2) tA tB"
    using pos(3,1,2) pref_A(1) by (rule prefers_spec)
  have cpref_B1: "prefers (xb, yb, wb, hb) (xb + wb / 2) (yb + hb / 2) tB tA"
    using pos(4,2,1) pref_B(1) by (rule prefers_spec)
  have cpref_A2: "\<forall>q. bbox q = (xb, yb, wb, hb) \<and> centerX q = xb + wb / 2 \<and> centerY q = yb + hb / 2
           \<longrightarrow> prefers (xa, ya, wa, ha) (xa + wa / 2) (ya + ha / 2) tA q"
  proof (intro allI impI)
    fix q :: TrackedPerson
    assume q: "bbox q = (xb, yb, wb, hb) \<and> centerX q = xb + wb / 2 \<and> centerY q = yb + hb / 2"
    then have "positiveBox (bbox q)" using pos(4) by simp
    with pos(3,1) show "prefers (xa, ya, wa, ha) (xa + wa / 2) (ya + ha / 2) tA q"
      by (rule prefers_spec) (use pref_A(2) q in blast)
  qed
  have cpref_B2: "\<forall>q. bbox q = (xa, ya, wa, ha) \<and> centerX q = xa + wa / 2 \<and> centerY q = ya + ha / 2
           \<longrightarrow> prefers (xb, yb, wb, hb) (xb + wb / 2) (yb + hb / 2) tB q"
  proof (intro allI impI)
    fix q :: TrackedPerson
    assume q: "bbox q = (xa, ya, wa, ha) \<and> centerX q = xa + wa / 2 \<and> centerY q = ya + ha / 2"
    then have "positiveBox (bbox q)" using pos(3) by simp
    with pos(4,2) show "prefers (xb, yb, wb, hb) (xb + wb / 2) (yb + hb / 2) tB q"
      by (rule prefers_spec) (use pref_B(2) q in blast)
  qed
  have hA: "\<bar>(xa + wa / 2) - centerX tA\<bar> \<le> 400"
    using abs_le_calculateDistance[of "centerX tA" "xa + wa / 2" "ya + ha / 2" "centerY tA"]
      cnear_A by (simp add: constants abs_minus_commute)
  have hB: "\<bar>(xb + wb / 2) - centerX tB\<bar> \<le> 400"
    using abs_le_calculateDistance[of "centerX tB" "xb + wb / 2" "yb + hb / 2" "centerY tB"]
      cnear_B by (simp add: constants abs_minus_commute)
  have uA: "\<exists>u'. updateExistingPerson (200 * CROSSING_LINE_POSITION) (xa, ya, wa, ha)
      (xa + wa / 2) (ya + ha / 2) now tA = (u', 1, 0)" for now
    unfolding l
    using updateExistingPerson_down[of tA 100 "ya + ha / 2" "xa + wa / 2" "(xa, ya, wa, ha)" now]
      nc(1) a30 a130 hA by (simp add: constants)
  have uB: "\<exists>v'. updateExistingPerson (200 * CROSSING_LINE_POSITION) (xb, yb, wb, hb)
      (xb + wb / 2) (yb + hb / 2) now tB = (v', 0, 1)" for now
    unfolding l
    using updateExistingPerson_up[of tB 100 "yb + hb / 2" "xb + wb / 2" "(xb, yb, wb, hb)" now]
      nc(2) b170 b60 hB by (simp add: constants)
  have len: "length (map pid (trackedPeople tr)) = 2" using reg by auto
  from dets have "r_countIn (fst (detectPeopleWithCrossing w predictions 200 tr)) = 1
       \<and> r_countOut (fst (detectPeopleWithCrossing w predictions 200 tr)) = 1
       \<and> map pid (trackedPeople (snd (detectPeopleWithCrossing w predictions 200 tr)))
           = map pid (trackedPeople tr)"
  proof
    assume s: "sort_key (\<lambda>d. - d_score d) (detectPeople predictions) = [dA, dB]"
    from frame_two[OF reg ne nc time s dA dB cnear_A cgood_A cpref_A1 cnear_B cgood_B cpref_B2 uA uB]
    show ?thesis by simp
  next
    assume s: "sort_key (\<lambda>d. - d_score d) (detectPeople predictions) = [dB, dA]"
    from reg have reg': "trackedPeople tr = [tB, tA] \<or> trackedPeople tr = [tA, tB]" by blast
    from frame_two[OF reg' ne[symmetric] nc(2,1) time(2,1) s dB dA cnear_B cgood_B cpref_B1
        cnear_A cgood_A cpref_A2 uB uA]
    show ?thesis by simp
  qed
  moreover from this have "length (trackedPeople (snd (detectPeopleWithCrossing w predictions 200 tr))) = 2"
    using len by (metis length_map)
  ultimately show ?thesis by blast
qed

text \<open>
  C4 as stated fails. The two people stand 500 pixels apart. In frame 2 the box of the first
  person has grown from 50 to 85 pixels a side, its centre is at \<open>y = 130\<close> straight below
  the old one, and the second person moves up to \<open>y = 60\<close>. The detection of the first
  person is 100 pixels from its own track and more than 500 from the other one, and
  overlaps neither, so its own frame-1 box is the closest; but its score against it,
  \<open>3401 / 11560\<close>, is below \<open>0.3\<close>. A third person is created, no entry is counted, and the
  registry holds three people.
\<close>

theorem two_person_scenario_counterexample:
  "map (\<lambda>r. (r_countIn r, r_countOut r))
     (fst (runFrames \<lparr>dateNow = (\<lambda>k. 1000 + int k), randomSuffix = (\<lambda>k. ''r'')\<rparr>
        [([\<lparr>d_bbox = (100, 5, 50, 50), d_class = ''person'', d_score = 0.9\<rparr>,
           \<lparr>d_bbox = (600, 145, 50, 50), d_class = ''person'', d_score = 0.8\<rparr>], 200),
         ([\<lparr>d_bbox = (165 / 2, 175 / 2, 85, 85), d_class = ''person'', d_score = 0.9\<rparr>,
           \<lparr>d_bbox = (600, 35, 50, 50), d_class = ''person'', d_score = 0.8\<rparr>], 200)]
        \<lparr>trackedPeople = [], clockReads = 0\<rparr>))
     = [(0, 0), (0, 1)]
   \<and> map (\<lambda>q. (pid q, centerX q, centerY q))
     (trackedPeople (snd (runFrames \<lparr>dateNow = (\<lambda>k. 1000 + int k), randomSuffix = (\<lambda>k. ''r'')\<rparr>
        [([\<lparr>d_bbox = (100, 5, 50, 50), d_class = ''person'', d_score = 0.9\<rparr>,
           \<lparr>d_bbox = (600, 145, 50, 50), d_class = ''person'', d_score = 0.8\<rparr>], 200),
         ([\<lparr>d_bbox = (165 / 2, 175 / 2, 85, 85), d_class = ''person'', d_score = 0.9\<rparr>,
           \<lparr>d_bbox = (600, 35, 50, 50), d_class = ''person'', d_score = 0.8\<rparr>], 200)]
        \<lparr>trackedPeople = [], clockReads = 0\<rparr>)))
     = [(''person_1002_r'', 125, 30), (''person_1004_r'', 625, 60), (''person_1008_r'', 125, 130)]
   \<and> calculateDistance 125 130 125 30 = 100
   \<and> TRACKING_THRESHOLD < calculateDistance 125 130 625 170
   \<and> calculateIoU (165 / 2, 175 / 2, 85, 85) (100, 5, 50, 50) = Fin 0
   \<and> calculateIoU (165 / 2, 175 / 2, 85, 85) (600, 145, 50, 50) = Fin 0
   \<and> candidateScore (165 / 2, 175 / 2, 85, 85) 125 130
        \<lparr>pid = ''person_1002_r'', bbox = (100, 5, 50, 50), centerX = 125, centerY = 30,
         previousY = 30, lastSeen = 1003, crossed = False, direction = None,
         framesSinceCrossing = 0\<rparr>
       = Fin (3401 / 11560)
   \<and> findClosestPerson
        [\<lparr>pid = ''person_1002_r'', bbox = (100, 5, 50, 50), centerX = 125, centerY = 30,
          previousY = 30, lastSeen = 1003, crossed = False, direction = None,
          framesSinceCrossing = 0\<rparr>,
         \<lparr>pid = ''person_1004_r'', bbox = (600, 145, 50, 50), centerX = 625, centerY = 170,
          previousY = 170, lastSeen = 1005, crossed = False, direction = None,
          framesSinceCrossing = 0\<rparr>]
        (165 / 2, 175 / 2, 85, 85) 125 130
       = None"
proof -
  let ?w = "\<lparr>dateNow = (\<lambda>k. 1000 + int k), randomSuffix = (\<lambda>k. ''r'')\<rparr>"
  let ?a1 = "\<lparr>d_bbox = (100, 5, 50, 50), d_class = ''person'', d_score = 0.9\<rparr>"
  let ?b1 = "\<lparr>d_bbox = (600, 145, 50, 50), d_class = ''person'', d_score = 0.8\<rparr>"
  let ?a2 = "\<lparr>d_bbox = (165 / 2, 175 / 2, 85, 85), d_class = ''person'', d_score = 0.9\<rparr>"
  let ?b2 = "\<lparr>d_bbox = (600, 35, 50, 50), d_class = ''person'', d_score = 0.8\<rparr>"
  let ?ta = "\<lparr>pid = ''person_1002_r'', bbox = (100, 5, 50, 50), centerX = 125, centerY = 30,
      previousY = 30, lastSeen = 1003, crossed = False, direction = None,
      framesSinceCrossing = 0\<rparr>"
  let ?tb = "\<lparr>pid = ''person_1004_r'', bbox = (600, 145, 50, 50), centerX = 625, centerY = 170,
      previousY = 170, lastSeen = 1005, crossed = False, direction = None,
      framesSinceCrossing = 0\<rparr>"
  let ?tb' = "\<lparr>pid = ''person_1004_r'', bbox = (600, 35, 50, 50), centerX = 625, centerY = 60,
      previousY = 170, lastSeen = 1010, crossed = True, direction = Some Out,
      framesSinceCrossing = 0\<rparr>"
  let ?tn = "\<lparr>pid = ''person_1008_r'', bbox = (165 / 2, 175 / 2, 85, 85), centerX = 125,
      centerY = 130, previousY = 130, lastSeen = 1009, crossed = False, direction = None,
      framesSinceCrossing = 0\<rparr>"
  let ?empty = "\<lparr>trackedPeople = [], clockReads = 0\<rparr>"
  let ?both = "\<lparr>trackedPeople = [?ta, ?tb], clockReads = 6\<rparr>"
  let ?three = "\<lparr>trackedPeople = [?ta, ?tb', ?tn], clockReads = 12\<rparr>"
  let ?s0 = "\<lparr>trackedPeople = [], clockReads = clockReads ?empty + 2, matchedPeople = {},
       countIn = 0, countOut = 0\<rparr>"
  let ?s1 = "\<lparr>trackedPeople = [?ta], clockReads = 4, matchedPeople = {''person_1002_r''},
       countIn = 0, countOut = 0\<rparr>"
  let ?s2 = "\<lparr>trackedPeople = [?ta, ?tb], clockReads = 6,
       matchedPeople = {''person_1004_r'', ''person_1002_r''}, countIn = 0, countOut = 0\<rparr>"
  let ?u0 = "\<lparr>trackedPeople = [?ta, ?tb], clockReads = clockReads ?both + 2, matchedPeople = {},
       countIn = 0, countOut = 0\<rparr>"
  let ?u1 = "\<lparr>trackedPeople = [?ta, ?tb, ?tn], clockReads = 10,
       matchedPeople = {''person_1008_r''}, countIn = 0, countOut = 0\<rparr>"
  let ?u2 = "\<lparr>trackedPeople = [?ta, ?tb', ?tn], clockReads = 11,
       matchedPeople = {''person_1004_r'', ''person_1008_r''}, countIn = 0, countOut = 1\<rparr>"
  have s1: "sort_key (\<lambda>d. - d_score d) (detectPeople [?a1, ?b1]) = [?a1, ?b1]"
    and s2: "sort_key (\<lambda>d. - d_score d) (detectPeople [?a2, ?b2]) = [?a2, ?b2]"
    by (simp_all add: detectPeople_def constants)
  have l: "200 * CROSSING_LINE_POSITION = 100" by (simp add: constants)
  have c1: "cooldownPass (cleanupTrackedPeople (dateNow ?w (clockReads ?empty + 1))
      (trackedPeople ?empty)) = []"
    by (simp add: cooldownPass_def cleanupTrackedPeople_def)
  have c2: "cooldownPass (cleanupTrackedPeople (dateNow ?w (clockReads ?both + 1))
      (trackedPeople ?both)) = [?ta, ?tb]"
    by (simp add: cooldownPass_def cleanupTrackedPeople_def cooldownStep_def constants)
  have p1: "processDetection ?w 100 ?s0 ?a1 = ?s1"
    by (simp add: processDetection_def eval_closest mapSet_def newId_def showInt_def showNat.simps)
  have p2: "processDetection ?w 100 ?s1 ?b1 = ?s2"
    by (simp add: processDetection_def eval_closest calculateDistance_gt_iff mapSet_def
        newId_def showInt_def showNat.simps)
  have f1: "foldl (processDetection ?w 100) ?s0 [?a1, ?b1] = ?s2"
    by (simp only: foldl.simps p1 p2)
  have r1: "removeUnmatched ?w ?s2 = ?both"
    by (simp add: removeUnmatched_def mapDelete_def collectUnmatched.simps)
  note e1 = detectPeopleWithCrossing_eval[OF s1 l c1 f1 r1]
  have q1: "processDetection ?w 100 ?u0 ?a2 = ?u1"
    by (simp add: processDetection_def eval_closest calculateDistance_gt_iff mapSet_def
        newId_def showInt_def showNat.simps)
  have q2: "processDetection ?w 100 ?u1 ?b2 = ?u2"
    by (simp add: processDetection_def updateExistingPerson_def eval_closest
        calculateDistance_gt_iff)
  have f2: "foldl (processDetection ?w 100) ?u0 [?a2, ?b2] = ?u2"
    by (simp only: foldl.simps q1 q2)
  have r2: "removeUnmatched ?w ?u2 = ?three"
    by (simp add: removeUnmatched_def mapDelete_def collectUnmatched.simps)
  note e2 = detectPeopleWithCrossing_eval[OF s2 l c2 f2 r2]
  let ?r = "\<lambda>ds st. \<lparr>r_detections = detectPeople ds, r_peopleCount = length (detectPeople ds),
      r_countIn = countIn st, r_countOut = countOut st\<rparr>"
  have run: "runFrames ?w [([?a1, ?b1], 200), ([?a2, ?b2], 200)] ?empty =
      ([?r [?a1, ?b1] ?s2, ?r [?a2, ?b2] ?u2], ?three)"
    by (simp only: runFrames.simps e1 e2 prod.case)
  have geo: "calculateDistance 125 130 125 30 = 100
   \<and> TRACKING_THRESHOLD < calculateDistance 125 130 625 170
   \<and> calculateIoU (165 / 2, 175 / 2, 85, 85) (100, 5, 50, 50) = Fin 0
   \<and> calculateIoU (165 / 2, 175 / 2, 85, 85) (600, 145, 50, 50) = Fin 0
   \<and> candidateScore (165 / 2, 175 / 2, 85, 85) 125 130 ?ta = Fin (3401 / 11560)
   \<and> findClosestPerson [?ta, ?tb] (165 / 2, 175 / 2, 85, 85) 125 130 = None"
    by (simp add: eval_closest calculateDistance_gt_iff)
  show ?thesis unfolding run using geo by simp
qed

text \<open>
  Two frames from the empty registry: two people 300 pixels apart at \<open>y = 30\<close> and
  \<open>y = 170\<close>, then at \<open>y = 130\<close> and \<open>y = 60\<close>. Every detection is within the tracking
  threshold of both people, so that the scores decide. The box of the first person grows
  from 50 by 60 to 50 by 180 pixels and overlaps the old one: its score against its own
  track is \<open>0.5 / 11 + 0.225 + 0.2 / 3\<close>, above \<open>0.3\<close> only by the overlap.
\<close>

theorem two_person_scenario_witness:
  "map (\<lambda>r. (r_countIn r, r_countOut r))
     (fst (runFrames \<lparr>dateNow = (\<lambda>k. 1000 + int k), randomSuffix = (\<lambda>k. ''r'')\<rparr>
        [([\<lparr>d_bbox = (100, 0, 50, 60), d_class = ''person'', d_score = 0.9\<rparr>,
           \<lparr>d_bbox = (400, 145, 50, 50), d_class = ''person'', d_score = 0.8\<rparr>], 200),
         ([\<lparr>d_bbox = (100, 40, 50, 180), d_class = ''person'', d_score = 0.9\<rparr>,
           \<lparr>d_bbox = (400, 35, 50, 50), d_class = ''person'', d_score = 0.8\<rparr>], 200)]
        \<lparr>trackedPeople = [], clockReads = 0\<rparr>))
     = [(0, 0), (1, 1)]
   \<and> map pid
     (trackedPeople (snd (runFrames \<lparr>dateNow = (\<lambda>k. 1000 + int k), randomSuffix = (\<lambda>k. ''r'')\<rparr>
        [([\<lparr>d_bbox = (100, 0, 50, 60), d_class = ''person'', d_score = 0.9\<rparr>,
           \<lparr>d_bbox = (400, 145, 50, 50), d_class = ''person'', d_score = 0.8\<rparr>], 200),
         ([\<lparr>d_bbox = (100, 40, 50, 180), d_class = ''person'', d_score = 0.9\<rparr>,
           \<lparr>d_bbox = (400, 35, 50, 50), d_class = ''person'', d_score = 0.8\<rparr>], 200)]
        \<lparr>trackedPeople = [], clockReads = 0\<rparr>)))
     = [''person_1002_r'', ''person_1004_r'']"
proof -
  let ?w = "\<lparr>dateNow = (\<lambda>k. 1000 + int k), randomSuffix = (\<lambda>k. ''r'')\<rparr>"
  let ?a1 = "\<lparr>d_bbox = (100, 0, 50, 60), d_class = ''person'', d_score = 0.9\<rparr>"
  let ?b1 = "\<lparr>d_bbox = (400, 145, 50, 50), d_class = ''person'', d_score = 0.8\<rparr>"
  let ?a2 = "\<lparr>d_bbox = (100, 40, 50, 180), d_class = ''person'', d_score = 0.9\<rparr>"
  let ?b2 = "\<lparr>d_bbox = (400, 35, 50, 50), d_class = ''person'', d_score = 0.8\<rparr>"
  let ?ta = "\<lparr>pid = ''person_1002_r'', bbox = (100, 0, 50, 60), centerX = 125, centerY = 30,
      previousY = 30, lastSeen = 1003, crossed = False, direction = None,
      framesSinceCrossing = 0\<rparr>"
  let ?tb = "\<lparr>pid = ''person_1004_r'', bbox = (400, 145, 50, 50), centerX = 425, centerY = 170,
      previousY = 170, lastSeen = 1005, crossed = False, direction = None,
      framesSinceCrossing = 0\<rparr>"
  let ?empty = "\<lparr>trackedPeople = [], clockReads = 0\<rparr>"
  let ?both = "\<lparr>trackedPeople = [?ta, ?tb], clockReads = 6\<rparr>"
  let ?s0 = "\<lparr>trackedPeople = [], clockReads = clockReads ?empty + 2, matchedPeople = {},
       countIn = 0, countOut = 0\<rparr>"
  let ?s1 = "\<lparr>trackedPeople = [?ta], clockReads = 4, matchedPeople = {''person_1002_r''},
       countIn = 0, countOut = 0\<rparr>"
  let ?s2 = "\<lparr>trackedPeople = [?ta, ?tb], clockReads = 6,
       matchedPeople = {''person_1004_r'', ''person_1002_r''}, countIn = 0, countOut = 0\<rparr>"
  have s1: "sort_key (\<lambda>d. - d_score d) (detectPeople [?a1, ?b1]) = [?a1, ?b1]"
    and s2: "sort_key (\<lambda>d. - d_score d) (detectPeople [?a2, ?b2]) = [?a2, ?b2]"
    by (simp_all add: detectPeople_def constants)
  have l: "200 * CROSSING_LINE_POSITION = 100" by (simp add: constants)
  have c: "cooldownPass (cleanupTrackedPeople (dateNow ?w (clockReads ?empty + 1))
      (trackedPeople ?empty)) = []"
    by (simp add: cooldownPass_def cleanupTrackedPeople_def)
  have p1: "processDetection ?w 100 ?s0 ?a1 = ?s1"
    by (simp add: processDetection_def eval_closest mapSet_def newId_def showInt_def showNat.simps)
  have far: "800 / 3 \<le> calculateDistance 425 170 125 30"
    unfolding calculateDistance_def by (rule real_le_rsqrt) (simp add: power2_eq_square)
  have low: "spec_score (400, 145, 50, 50) 425 170 ?ta \<le> 3 / 10"
    unfolding spec_score_def calculateDistance_def[symmetric]
    using far by (simp add: spec_iou_def constants; simp add: max_def field_simps)
  have nb: "findClosestPerson (trackedPeople ?s1) (400, 145, 50, 50) (400 + 50 / 2) (145 + 50 / 2)
      = None"
    unfolding findClosestPerson_None_iff
    using low candidateScore_positive[of "(400, 145, 50, 50)" ?ta 425 170]
    by (simp add: positiveBox_def)
  have bb: "d_bbox ?b1 = (400, 145, 50, 50)" by simp
  have p2: "processDetection ?w 100 ?s1 ?b1 = ?s2"
    unfolding processDetection_new[OF bb nb]
    by (simp add: mapSet_def newId_def showInt_def showNat.simps)
  have f: "foldl (processDetection ?w 100) ?s0 [?a1, ?b1] = ?s2"
    by (simp only: foldl.simps p1 p2)
  have u: "removeUnmatched ?w ?s2 = ?both"
    by (simp add: removeUnmatched_def mapDelete_def collectUnmatched.simps)
  note e1 = detectPeopleWithCrossing_eval[OF s1 l c f u]
  have d1: "100 < calculateDistance 125 130 425 170"
    and d2: "100 < calculateDistance 125 130 425 60"
    and d3: "110 < calculateDistance 425 60 125 30"
    and d4: "110 < calculateDistance 425 60 125 130"
    by (simp_all add: calculateDistance_gt_iff)
  have frame2: "r_countIn (fst (detectPeopleWithCrossing ?w [?a2, ?b2] 200 ?both)) = 1
       \<and> r_countOut (fst (detectPeopleWithCrossing ?w [?a2, ?b2] 200 ?both)) = 1
       \<and> map pid (trackedPeople (snd (detectPeopleWithCrossing ?w [?a2, ?b2] 200 ?both)))
           = map pid (trackedPeople ?both)
       \<and> length (trackedPeople (snd (detectPeopleWithCrossing ?w [?a2, ?b2] 200 ?both))) = 2"
  proof (rule two_person_scenario[where tA = ?ta and tB = ?tb and dA = ?a2 and dB = ?b2
        and xa = 100 and ya = 40 and wa = 50 and ha = 180
        and xb = 400 and yb = 35 and wb = 50 and hb = 50])
    show "sort_key (\<lambda>d. - d_score d) (detectPeople [?a2, ?b2]) = [?a2, ?b2]
               \<or> sort_key (\<lambda>d. - d_score d) (detectPeople [?a2, ?b2]) = [?b2, ?a2]"
      using s2 by blast
    show "0.3 < spec_score (100, 40, 50, 180) (100 + 50 / 2) (40 + 180 / 2) ?ta"
      unfolding spec_score_def calculateDistance_def[symmetric]
      by (simp add: spec_iou_def calculateDistance_vertical constants)
    show "0.3 < spec_score (400, 35, 50, 50) (400 + 50 / 2) (35 + 50 / 2) ?tb"
      unfolding spec_score_def calculateDistance_def[symmetric]
      by (simp add: spec_iou_def calculateDistance_vertical constants)
    show "spec_prefers (100, 40, 50, 180) (100 + 50 / 2) (40 + 180 / 2) ?ta ?tb"
      unfolding spec_prefers_def spec_score_def calculateDistance_def[symmetric]
      using d1
      by (simp add: spec_iou_def calculateDistance_vertical constants; simp add: max_def field_simps)
    show "spec_prefers (400, 35, 50, 50) (400 + 50 / 2) (35 + 50 / 2) ?tb ?ta"
      unfolding spec_prefers_def spec_score_def calculateDistance_def[symmetric]
      using d3
      by (simp add: spec_iou_def calculateDistance_vertical constants; simp add: max_def field_simps)
    show "\<forall>q. bbox q = (400, 35, 50, 50) \<and> centerX q = 400 + 50 / 2 \<and> centerY q = 35 + 50 / 2
           \<longrightarrow> spec_prefers (100, 40, 50, 180) (100 + 50 / 2) (40 + 180 / 2) ?ta q"
      unfolding spec_prefers_def spec_score_def calculateDistance_def[symmetric]
      using d2
      by (simp add: spec_iou_def calculateDistance_vertical constants; simp add: max_def field_simps)
    show "\<forall>q. bbox q = (100, 40, 50, 180) \<and> centerX q = 100 + 50 / 2 \<and> centerY q = 40 + 180 / 2
           \<longrightarrow> spec_prefers (400, 35, 50, 50) (400 + 50 / 2) (35 + 50 / 2) ?tb q"
      unfolding spec_prefers_def spec_score_def calculateDistance_def[symmetric]
      using d4
      by (simp add: spec_iou_def calculateDistance_vertical constants; simp add: max_def field_simps)
  qed (simp_all add: positiveBox_def constants)
  have run: "runFrames ?w [([?a1, ?b1], 200), ([?a2, ?b2], 200)] ?empty =
      ([\<lparr>r_detections = detectPeople [?a1, ?b1], r_peopleCount = length (detectPeople [?a1, ?b1]),
         r_countIn = countIn ?s2, r_countOut = countOut ?s2\<rparr>,
        fst (detectPeopleWithCrossing ?w [?a2, ?b2] 200 ?both)],
       snd (detectPeopleWithCrossing ?w [?a2, ?b2] 200 ?both))"
    by (simp only: runFrames_Cons runFrames.simps(1) e1 fst_conv snd_conv)
  show ?thesis unfolding run using frame2 by simp
qed

end
